theory Spec2Isabelle
  imports Main "HOL-Library.Word"
begin

section \<open>Bytes and C strings\<close>

text \<open>
  A C \<open>char\<close> is a \<^typ>\<open>char\<close> (eight bits), a buffer is a \<^typ>\<open>string\<close>.
  The string functions of the C library stop at the first zero byte: \<open>cstr\<close> is the
  C string that starts at the beginning of a buffer.
\<close>

abbreviation NUL :: char where "NUL \<equiv> CHR 0x00"
abbreviation CR :: char where "CR \<equiv> CHR 0x0D"
abbreviation LF :: char where "LF \<equiv> CHR 0x0A"

definition cstr :: "string \<Rightarrow> string" where
  "cstr b = takeWhile (\<lambda>c. c \<noteq> NUL) b"

text \<open>\<open>isspace\<close>, \<open>isdigit\<close> and \<open>tolower\<close> of \<open>ctype.h\<close> in the C locale.\<close>

definition isspace :: "char \<Rightarrow> bool" where
  "isspace c = (c \<in> {CHR 0x20, CHR 0x09, CHR 0x0A, CHR 0x0B, CHR 0x0C, CHR 0x0D})"

definition isdigit :: "char \<Rightarrow> bool" where
  "isdigit c = (48 \<le> (of_char c :: nat) \<and> (of_char c :: nat) \<le> 57)"

definition tolower :: "char \<Rightarrow> char" where
  "tolower c = (if 65 \<le> (of_char c :: nat) \<and> (of_char c :: nat) \<le> 90
                then char_of ((of_char c :: nat) + 32) else c)"

text \<open>\<open>strcasecmp(a, b) == 0\<close> on two C strings.\<close>

definition strcasecmp_eq :: "string \<Rightarrow> string \<Rightarrow> bool" where
  "strcasecmp_eq a b = (map tolower a = map tolower b)"

text \<open>\<open>memchr(b, c, n)\<close>: the index of the first \<open>c\<close> among the first \<open>n\<close> bytes.\<close>

fun memchr :: "string \<Rightarrow> char \<Rightarrow> nat \<Rightarrow> nat option" where
  "memchr [] c n = None"
| "memchr (x # xs) c 0 = None"
| "memchr (x # xs) c (Suc n) =
     (if x = c then Some 0 else map_option Suc (memchr xs c n))"

section \<open>socketbuffer.c: the buffered line reader\<close>

text \<open>
  The socket is the list of what the following calls of \<open>recv\<close> will deliver: a segment of
  data, or an error. An exhausted list is a stream the peer has closed.
  \<open>recv fd n\<close> returns the count as \<open>recv(2)\<close> does (\<open>-1\<close> on error, \<open>0\<close> on orderly
  shutdown), the bytes stored, and the rest of the socket.
\<close>

datatype recv_event = Data string | Error

fun recv :: "recv_event list \<Rightarrow> nat \<Rightarrow> int \<times> string \<times> recv_event list" where
  "recv [] n = (0, [], [])"
| "recv (Error # es) n = (- 1, [], es)"
| "recv (Data d # es) n =
     (if length d \<le> n then (int (length d), d, es)
      else (int n, take n d, Data (drop n d) # es))"

text \<open>
  \<open>struct socket_buffer\<close>. The field \<open>buf\<close> holds the bytes of the flexible array that
  have been received; \<open>fd\<close> is the socket.
\<close>

record socket_buffer =
  fd :: "recv_event list"
  max_bytes :: nat
  avail_data :: nat
  buf :: string

definition sb_create :: "recv_event list \<Rightarrow> nat \<Rightarrow> socket_buffer" where
  "sb_create f max_buffer_size =
     \<lparr>fd = f, max_bytes = max_buffer_size, avail_data = 0, buf = []\<rparr>"

text \<open>
  The tail of \<open>sb_read_line\<close> after the loop, with \<open>rv = eos - sb->buf + 1\<close>:
  \<open>memcpy\<close> into \<open>out\<close>, the zero byte at \<open>out[rv]\<close>, and the \<open>memmove\<close> of the rest.
\<close>

definition sb_emit :: "socket_buffer \<Rightarrow> string \<Rightarrow> nat \<Rightarrow> int \<times> string \<times> socket_buffer" where
  "sb_emit sb out rv =
     (int rv,
      take rv (buf sb) @ NUL # drop (Suc rv) out,
      sb\<lparr>avail_data := avail_data sb - rv, buf := drop rv (buf sb)\<rparr>)"

text \<open>
  \<open>sb_read_line sb out\<close> returns the count, the array \<open>out\<close> and the buffer after the
  call. On a read error \<open>out\<close> is left as it was.
\<close>

function sb_read_line :: "socket_buffer \<Rightarrow> string \<Rightarrow> int \<times> string \<times> socket_buffer" where
  "sb_read_line sb out =
     (case memchr (buf sb) LF (avail_data sb) of
        Some k \<Rightarrow> sb_emit sb out (k + 1)
      | None \<Rightarrow>
          if avail_data sb < max_bytes sb then
            (case recv (fd sb) (max_bytes sb - avail_data sb) of
               (rv, d, fd') \<Rightarrow>
                 if rv < 0 then (rv, out, sb\<lparr>fd := fd'\<rparr>)
                 else if rv = 0 then sb_emit (sb\<lparr>fd := fd'\<rparr>) out (avail_data sb)
                 else sb_read_line
                        (sb\<lparr>fd := fd',
                            buf := take (avail_data sb) (buf sb) @ d,
                            avail_data := avail_data sb + nat rv\<rparr>) out)
          else sb_emit sb out (max_bytes sb))"
  by pat_completeness auto
termination
  by (relation "measure (\<lambda>(sb, out). max_bytes sb - avail_data sb)") auto

declare sb_read_line.simps [simp del]

text \<open>
  What a socket still has to deliver before it fails or is closed, and how it ends:
  the vocabulary in which the behaviour of the whole read loop is stated.
\<close>

fun incoming :: "recv_event list \<Rightarrow> string" where
  "incoming [] = []"
| "incoming (Error # es) = []"
| "incoming (Data d # es) = (if d = [] then [] else d @ incoming es)"

fun read_error :: "recv_event list \<Rightarrow> bool" where
  "read_error [] = False"
| "read_error (Error # es) = True"
| "read_error (Data d # es) = (if d = [] then False else read_error es)"

text \<open>The bytes a buffer will see: those it holds, then those the socket delivers.\<close>

definition pending :: "socket_buffer \<Rightarrow> string" where
  "pending sb = buf sb @ incoming (fd sb)"

text \<open>The representation invariant of a buffer, established by \<open>sb_create\<close>.\<close>

definition sb_inv :: "socket_buffer \<Rightarrow> bool" where
  "sb_inv sb = (avail_data sb = length (buf sb) \<and> avail_data sb \<le> max_bytes sb)"

text \<open>
  What one call returns, in terms of the pending bytes: the first line feed among the first
  \<open>max_bytes\<close> of them ends the line; without one, a full buffer is returned whole, and a
  shorter stream is returned at its end, or lost to a read error.
\<close>

definition sb_post :: "socket_buffer \<Rightarrow> string \<Rightarrow> int \<times> string \<times> socket_buffer \<Rightarrow> bool" where
  "sb_post sb out r =
     (case r of (rv, out', sb') \<Rightarrow>
        (case memchr (pending sb) LF (max_bytes sb) of
           Some k \<Rightarrow> rv = int (k + 1) \<and> out' = take (k + 1) (pending sb) @ NUL # drop (k + 2) out
         | None \<Rightarrow>
             if max_bytes sb \<le> length (pending sb)
             then rv = int (max_bytes sb) \<and>
                  out' = take (max_bytes sb) (pending sb) @ NUL # drop (Suc (max_bytes sb)) out
             else if read_error (fd sb) then rv = - 1 \<and> out' = out
             else rv = int (length (pending sb)) \<and>
                  out' = pending sb @ NUL # drop (Suc (length (pending sb))) out) \<and>
        sb_inv sb' \<and> max_bytes sb' = max_bytes sb)"

section \<open>Helpers shared by popd.c and smtpd.c\<close>

abbreviation CRLF :: string where "CRLF \<equiv> [CR, LF]"

definition MAX_LINE_LENGTH :: nat where
  "MAX_LINE_LENGTH = 1024"

text \<open>
  What the model records where the C program leaves defined behaviour: each constructor
  names the access that goes out of bounds or reads what was never written.
\<close>

datatype fault =
    CommandOverflow       \<comment> \<open>\<open>sscanf(reply, "%s", command)\<close> stores more than 40 bytes and a zero\<close>
  | CommandUninitialised  \<comment> \<open>\<open>command\<close> is compared before any \<open>sscanf\<close> has stored into it\<close>
  | NullArgument          \<comment> \<open>\<open>strcpy\<close> from the \<open>NULL\<close> that \<open>retrieveArgs\<close> returned\<close>
  | NameOverflow          \<comment> \<open>\<open>strcpy\<close> of more than \<open>MAX_USERNAME_SIZE\<close> bytes and a zero\<close>
  | ContentOverflow       \<comment> \<open>\<open>readEmail\<close> writes past \<open>content[MAX_LINE_LENGTH]\<close>\<close>
  | RecipientOverflow     \<comment> \<open>\<open>toEmail[rcpt_count]\<close> with \<open>rcpt_count \<ge> 30\<close>\<close>
  | DataOverflow          \<comment> \<open>\<open>strcat(data, reply)\<close> past the 64001 bytes of \<open>data\<close>\<close>
  | MessageOverflow       \<comment> \<open>\<open>strcat\<close> past \<open>initialMessage[200]\<close>\<close>

text \<open>
  \<open>sscanf(str, "%s", t)\<close> and \<open>sscanf(str, "%6s", t)\<close>: white space is skipped, then the
  bytes up to the next white space or the end of the string are stored, at most as many as
  the width allows. \<open>None\<close> when the string ends before anything is stored; the target is
  then left as it was.
\<close>

definition sscanf_s :: "nat option \<Rightarrow> string \<Rightarrow> string option" where
  "sscanf_s width str =
     (let tok = takeWhile (\<lambda>c. \<not> isspace c) (dropWhile isspace (cstr str))
      in if tok = [] then None
         else Some (case width of None \<Rightarrow> tok | Some w \<Rightarrow> take w tok))"

text \<open>
  \<open>sscanf(reply, "%s", command)\<close> at the head of both loops, into \<open>char command[41]\<close>;
  \<open>command\<close> is \<open>None\<close> until the first store.
\<close>

definition scan_command :: "string option \<Rightarrow> string \<Rightarrow> fault + string option" where
  "scan_command command reply =
     (case sscanf_s None reply of
        None \<Rightarrow> Inr command
      | Some tok \<Rightarrow> if length tok > 40 then Inl CommandOverflow else Inr (Some tok))"

definition with_command ::
  "string option \<Rightarrow> (string \<Rightarrow> fault + 'a) \<Rightarrow> fault + 'a" where
  "with_command command f =
     (case command of None \<Rightarrow> Inl CommandUninitialised | Some c \<Rightarrow> f c)"

text \<open>
  \<open>checkCRLF(str, size)\<close> and \<open>checkCRLFSimple(str, size)\<close>, the same text in both
  servers. They are called with \<open>size = reply_size > 0\<close>.
\<close>

definition checkCRLF :: "string \<Rightarrow> nat \<Rightarrow> bool" where
  "checkCRLF str n =
     (if n = 2 \<and> str ! (n - 2) = CR \<and> str ! (n - 1) = LF then False
      else if n > 3 \<and> str ! (n - 2) = CR \<and> str ! (n - 1) = LF
           then (if \<not> isspace (str ! (n - 3)) then True else False)
      else False)"

definition checkCRLFSimple :: "string \<Rightarrow> nat \<Rightarrow> bool" where
  "checkCRLFSimple str n =
     (if n > 1 \<and> str ! (n - 2) = CR \<and> str ! (n - 1) = LF then True else False)"

text \<open>
  \<open>strchr\<close> and \<open>strrchr\<close> on a C string: the index of the first and of the last
  occurrence. \<open>strtok(s, "\r")\<close>: the first token of \<open>s\<close>, \<open>NULL\<close> when there is none.
\<close>

definition strchr :: "string \<Rightarrow> char \<Rightarrow> nat option" where
  "strchr s c = (if c \<in> set s then Some (length (takeWhile (\<lambda>x. x \<noteq> c) s)) else None)"

definition strrchr :: "string \<Rightarrow> char \<Rightarrow> nat option" where
  "strrchr s c =
     (if c \<in> set s then Some (length s - 1 - length (takeWhile (\<lambda>x. x \<noteq> c) (rev s)))
      else None)"

definition strtok :: "string \<Rightarrow> char \<Rightarrow> string option" where
  "strtok s delim =
     (let t = dropWhile (\<lambda>c. c = delim) s
      in if t = [] then None else Some (takeWhile (\<lambda>c. c \<noteq> delim) t))"

definition retrieveArgs :: "string \<Rightarrow> string option" where
  "retrieveArgs str =
     (case strchr (cstr str) (CHR '' '') of
        Some ret \<Rightarrow> strtok (drop (Suc ret) (cstr str)) CR
      | None \<Rightarrow> None)"

text \<open>\<open>strcpy(dst, src)\<close> into an array of \<open>cap + 1\<close> bytes: the string stored.\<close>

definition strcpy :: "nat \<Rightarrow> string option \<Rightarrow> fault + string" where
  "strcpy cap src =
     (case src of
        None \<Rightarrow> Inl NullArgument
      | Some s \<Rightarrow> if length s > cap then Inl NameOverflow else Inr s)"

definition numbers_only :: "string \<Rightarrow> bool" where
  "numbers_only s = list_all isdigit s"

text \<open>
  \<open>strtol(arg, NULL, 10)\<close> on a string of digits, with a 64-bit \<open>long\<close>: the value,
  or \<open>LONG_MAX\<close> when it does not fit. The callers cast the result to \<open>int\<close> and store
  it in an \<open>unsigned int\<close>, which keeps the low 32 bits.
\<close>

definition strtol :: "string \<Rightarrow> int" where
  "strtol s = min (foldl (\<lambda>a c. 10 * a + (of_char c - 48)) 0 s) (2 ^ 63 - 1)"

definition arg_index :: "string \<Rightarrow> 32 word" where
  "arg_index arg = word_of_int (strtol arg)"

text \<open>\<open>%d\<close> of \<open>sprintf\<close>: a decimal number, with a minus sign when negative.\<close>

fun digits :: "nat \<Rightarrow> string" where
  "digits n =
     (if n < 10 then [char_of (48 + n)] else digits (n div 10) @ [char_of (48 + n mod 10)])"

declare digits.simps [simp del]

definition printf_d :: "int \<Rightarrow> string" where
  "printf_d i = (if i < 0 then CHR ''-'' # digits (nat (- i)) else digits (nat i))"

section \<open>The user store\<close>

text \<open>
  \<open>user.h\<close> and \<open>user.c\<close> are not among the sources. What they declare as constants and
  what they look up in the directories of users and mail is a parameter of the model:
  the bound on names, the check of a user (with or without a password), the mail a user
  has, and the file behind a mail item (\<open>None\<close> when \<open>open\<close> fails).
\<close>

record mail_item =
  filename :: string
  item_size :: nat
  deleted :: bool

type_synonym mail_list = "mail_item list"

record user_store =
  MAX_USERNAME_SIZE :: nat
  is_valid_user :: "string \<Rightarrow> string option \<Rightarrow> bool"
  load_user_mail :: "string \<Rightarrow> mail_list"
  mail_file :: "string \<Rightarrow> string option"

text \<open>
  Modelled from the spec: \<open>get_mail_count\<close> of \<open>user.c\<close>, absent from the sources; the
  count of a snapshot is the number of its items that are not deleted.
\<close>

definition get_mail_count :: "mail_list \<Rightarrow> nat" where
  "get_mail_count ml = length (filter (\<lambda>m. \<not> deleted m) ml)"

text \<open>
  Modelled from the spec: \<open>get_mail_list_size\<close> of \<open>user.c\<close>, absent from the sources; the
  total size of a snapshot is the sum of the sizes of its items that are not deleted.
\<close>

definition get_mail_list_size :: "mail_list \<Rightarrow> nat" where
  "get_mail_list_size ml = sum_list (map item_size (filter (\<lambda>m. \<not> deleted m) ml))"

text \<open>
  Modelled from the spec: \<open>get_mail_item\<close> of \<open>user.c\<close>, absent from the sources; the item
  at a position counted from 0, or the null indicator when there is no item there or the
  item is deleted. The pointer it returns is the position in the list.
\<close>

definition get_mail_item :: "mail_list \<Rightarrow> 32 word \<Rightarrow> nat option" where
  "get_mail_item ml pos =
     (if unat pos < length ml \<and> \<not> deleted (ml ! unat pos) then Some (unat pos) else None)"

text \<open>
  Modelled from the spec: \<open>mark_mail_item_deleted\<close> of \<open>user.c\<close>, absent from the sources;
  it sets the \<open>deleted\<close> flag of the item.
\<close>

definition mark_mail_item_deleted :: "mail_list \<Rightarrow> nat \<Rightarrow> mail_list" where
  "mark_mail_item_deleted ml m = ml[m := (ml ! m)\<lparr>deleted := True\<rparr>]"

text \<open>
  Modelled from the spec: \<open>reset_mail_list_deleted_flag\<close> of \<open>user.c\<close>, absent from the
  sources; it clears all \<open>deleted\<close> flags in the snapshot.
\<close>

definition reset_mail_list_deleted_flag :: "mail_list \<Rightarrow> mail_list" where
  "reset_mail_list_deleted_flag ml = map (\<lambda>m. m\<lparr>deleted := False\<rparr>) ml"

text \<open>
  Modelled from the spec: \<open>get_mail_item_size\<close> of \<open>user.c\<close>, absent from the sources; the
  size of the item in octets, as a \<open>size_t\<close> of 64 bits.
\<close>

definition get_mail_item_size :: "mail_list \<Rightarrow> nat \<Rightarrow> 64 word" where
  "get_mail_item_size ml m = word_of_nat (item_size (ml ! m))"

section \<open>popd.c: the POP3 server\<close>

definition sendWelcome :: string where
  "sendWelcome = ''+OK POP3 Server Ready'' @ CRLF"

definition sendPositive :: string where
  "sendPositive = ''+OK'' @ CRLF"

definition sendNegative :: string where
  "sendNegative = ''-ERR'' @ CRLF"

text \<open>
  \<open>sendCountPositive(fd, mailCount, size)\<close> and \<open>sendCount(fd, mailCount, size)\<close>: the
  \<open>unsigned int\<close> count goes through \<open>%d\<close>, and so does the \<open>size_t\<close> size after its cast
  to \<open>int\<close>.
\<close>

definition sendCountPositive :: "32 word \<Rightarrow> 64 word \<Rightarrow> string" where
  "sendCountPositive mailCount sz =
     ''+OK '' @ printf_d (sint mailCount) @ '' '' @ printf_d (sint (ucast sz :: 32 word)) @ CRLF"

definition sendCount :: "32 word \<Rightarrow> 64 word \<Rightarrow> string" where
  "sendCount mailCount sz =
     printf_d (sint mailCount) @ '' '' @ printf_d (sint (ucast sz :: 32 word)) @ CRLF"

text \<open>
  The read loop of \<open>readEmail\<close>: \<open>content\<close> is the line read so far, \<open>i\<close> its length; a
  line feed sends the line as a C string. Bytes after the last line feed are not sent.
\<close>

fun read_lines :: "string \<Rightarrow> string \<Rightarrow> fault + string list" where
  "read_lines [] content = Inr []"
| "read_lines (c # cs) content =
     (if length content > MAX_LINE_LENGTH then Inl ContentOverflow
      else if c = LF then
        (if length content + 1 > MAX_LINE_LENGTH then Inl ContentOverflow
         else (case read_lines cs [] of
                 Inl f \<Rightarrow> Inl f
               | Inr sent \<Rightarrow> Inr (cstr (content @ [c]) # sent)))
      else read_lines cs (content @ [c]))"

definition readEmail :: "user_store \<Rightarrow> mail_item \<Rightarrow> fault + string list" where
  "readEmail us mail =
     (case mail_file us (filename mail) of
        Some bytes \<Rightarrow>
          (case read_lines bytes [] of
             Inl f \<Rightarrow> Inl f
           | Inr sent \<Rightarrow> Inr (sendPositive # sent @ [''.'' @ CRLF]))
      | None \<Rightarrow> Inr [sendNegative])"

text \<open>
  The variables of \<open>handle_client\<close> that live across iterations of its loop. The flags are
  C integers that only ever hold 0 or 1.
\<close>

record popd_state =
  authorization :: bool
  transaction :: bool
  accepted_user :: bool
  command :: "string option"
  username :: string
  password :: string
  mailList :: mail_list
  mailCount :: "32 word"

definition popd_init :: popd_state where
  "popd_init =
     \<lparr>authorization = True, transaction = False, accepted_user = False, command = None,
      username = [], password = [], mailList = [], mailCount = 0\<rparr>"

text \<open>
  One iteration of the loop, after \<open>sb_read_line\<close> has returned \<open>reply_size > 0\<close> bytes:
  \<open>reply\<close> is those bytes (the zero byte behind them ends every C string read from
  them). The result is the state, the strings sent in order, and whether the loop is left
  by \<open>break\<close>. Every send is taken to succeed.
\<close>

type_synonym 'st outcome = "fault + ('st \<times> string list \<times> bool)"

definition popd_authorization ::
  "user_store \<Rightarrow> popd_state \<Rightarrow> string \<Rightarrow> string \<Rightarrow> popd_state outcome" where
  "popd_authorization us s cmd reply =
     (let reply_size = length reply in
      if strcasecmp_eq cmd ''USER'' then
        (if reply_size \<noteq> 6 then
           (case strcpy (MAX_USERNAME_SIZE us) (retrieveArgs reply) of
              Inl f \<Rightarrow> Inl f
            | Inr u \<Rightarrow>
                if is_valid_user us u None
                then Inr (s\<lparr>username := u, accepted_user := True\<rparr>, [sendPositive], False)
                else Inr (s\<lparr>username := u\<rparr>, [sendNegative], False))
         else Inr (s, [sendNegative], False))
      else if strcasecmp_eq cmd ''PASS'' then
        (if accepted_user s \<and> reply_size \<noteq> 6 then
           (case strcpy (MAX_USERNAME_SIZE us) (retrieveArgs reply) of
              Inl f \<Rightarrow> Inl f
            | Inr p \<Rightarrow>
                if is_valid_user us (username s) (Some p)
                then Inr (s\<lparr>password := p, authorization := False, transaction := True,
                            mailList := load_user_mail us (username s),
                            mailCount := word_of_nat (get_mail_count (load_user_mail us (username s)))\<rparr>,
                          [sendPositive], False)
                else Inr (s\<lparr>password := p, accepted_user := False\<rparr>, [sendNegative], False))
         else Inr (s\<lparr>accepted_user := False\<rparr>, [sendNegative], False))
      else if strcasecmp_eq cmd ''QUIT'' \<and> reply_size = 6 then Inr (s, [sendPositive], True)
      else Inr (s, [sendNegative], False))"

text \<open>The \<open>for\<close> loop of \<open>LIST\<close> without argument, over \<open>i < mailCount\<close>.\<close>

definition list_items :: "mail_list \<Rightarrow> 32 word \<Rightarrow> string list" where
  "list_items ml count =
     concat (map (\<lambda>i. case get_mail_item ml (word_of_nat i) of
                         Some m \<Rightarrow> [sendCount (word_of_nat i + 1) (get_mail_item_size ml m)]
                       | None \<Rightarrow> [])
                 [0 ..< unat count])"

definition popd_transaction ::
  "user_store \<Rightarrow> popd_state \<Rightarrow> string \<Rightarrow> string \<Rightarrow> popd_state outcome" where
  "popd_transaction us s cmd reply =
     (let reply_size = length reply; ml = mailList s in
      if strcasecmp_eq cmd ''STAT'' \<and> reply_size = 6 then
        Inr (s, [sendCountPositive (word_of_nat (get_mail_count ml))
                                   (word_of_nat (get_mail_list_size ml))], False)
      else if strcasecmp_eq cmd ''LIST'' then
        (if reply_size = 6 then
           Inr (s, sendCountPositive (word_of_nat (get_mail_count ml))
                                     (word_of_nat (get_mail_list_size ml))
                   # list_items ml (mailCount s) @ [''.'' @ CRLF], False)
         else
           (case retrieveArgs reply of
              Some arg \<Rightarrow>
                if numbers_only arg then
                  (case get_mail_item ml (arg_index arg - 1) of
                     Some m \<Rightarrow>
                       Inr (s, [sendCountPositive (arg_index arg) (get_mail_item_size ml m)], False)
                   | None \<Rightarrow> Inr (s, [sendNegative], False))
                else Inr (s, [sendNegative], False)
            | None \<Rightarrow> Inr (s, [sendNegative], False)))
      else if strcasecmp_eq cmd ''RETR'' then
        (case retrieveArgs reply of
           Some arg \<Rightarrow>
             if numbers_only arg then
               (case get_mail_item ml (arg_index arg - 1) of
                  Some m \<Rightarrow>
                    (case readEmail us (ml ! m) of
                       Inl f \<Rightarrow> Inl f
                     | Inr sent \<Rightarrow> Inr (s, sent, False))
                | None \<Rightarrow> Inr (s, [sendNegative], False))
             else Inr (s, [sendNegative], False)
         | None \<Rightarrow> Inr (s, [sendNegative], False))
      else if strcasecmp_eq cmd ''DELE'' then
        (case retrieveArgs reply of
           Some arg \<Rightarrow>
             if numbers_only arg then
               (case get_mail_item ml (arg_index arg - 1) of
                  Some m \<Rightarrow>
                    Inr (s\<lparr>mailList := mark_mail_item_deleted ml m\<rparr>, [sendPositive], False)
                | None \<Rightarrow> Inr (s, [sendNegative], False))
             else Inr (s, [sendNegative], False)
         | None \<Rightarrow> Inr (s, [sendNegative], False))
      else if strcasecmp_eq cmd ''NOOP'' then Inr (s, [sendPositive], False)
      else if strcasecmp_eq cmd ''RSET'' \<and> reply_size = 6 then
        Inr (s\<lparr>mailList := reset_mail_list_deleted_flag ml\<rparr>,
             [sendCountPositive
                (word_of_nat (get_mail_count (reset_mail_list_deleted_flag ml)))
                (word_of_nat (get_mail_list_size (reset_mail_list_deleted_flag ml)))], False)
      else if strcasecmp_eq cmd ''QUIT'' \<and> reply_size = 6 then Inr (s, [sendPositive], True)
      else Inr (s, [sendNegative], False))"

definition popd_step :: "user_store \<Rightarrow> popd_state \<Rightarrow> string \<Rightarrow> popd_state outcome" where
  "popd_step us s0 reply =
     (case scan_command (command s0) reply of
        Inl f \<Rightarrow> Inl f
      | Inr c \<Rightarrow>
          (let s = s0\<lparr>command := c\<rparr> in
           if checkCRLF reply (length reply) then
             (if authorization s then with_command c (\<lambda>cmd. popd_authorization us s cmd reply)
              else if transaction s then with_command c (\<lambda>cmd. popd_transaction us s cmd reply)
              else Inr (s, [sendNegative], False))
           else Inr (s, [sendNegative], False)))"

text \<open>
  A session, once the reader has cut the stream into lines: the lines are handled in turn
  until a fault or a \<open>break\<close>. It is the loop of \<open>handle_client\<close> seen from its lines,
  for either server.
\<close>

fun session_run ::
  "('st \<Rightarrow> string \<Rightarrow> 'st outcome) \<Rightarrow> 'st \<Rightarrow> string list \<Rightarrow> fault + ('st \<times> string list)" where
  "session_run step s [] = Inr (s, [])"
| "session_run step s (l # ls) =
     (case step s l of
        Inl f \<Rightarrow> Inl f
      | Inr (s', sent, stop) \<Rightarrow>
          if stop then Inr (s', sent)
          else (case session_run step s' ls of
                  Inl f \<Rightarrow> Inl f
                | Inr (s'', sent') \<Rightarrow> Inr (s'', sent @ sent')))"

abbreviation popd_run ::
  "user_store \<Rightarrow> popd_state \<Rightarrow> string list \<Rightarrow> fault + (popd_state \<times> string list)" where
  "popd_run us \<equiv> session_run (popd_step us)"

section \<open>smtpd.c: the SMTP server\<close>

definition send221 :: string where
  "send221 = ''221 OK'' @ CRLF"

definition send250 :: string where
  "send250 = ''250 OK'' @ CRLF"

definition send354 :: string where
  "send354 = ''354 End data with <CRLF>.<CRLF>'' @ CRLF"

definition send451 :: string where
  "send451 = ''451 Requested action aborted: error in processing'' @ CRLF"

definition send500 :: string where
  "send500 = ''500 Syntax error, command unrecognized'' @ CRLF"

definition send501 :: string where
  "send501 = ''501 Syntax error in parameters or arguments'' @ CRLF"

definition send502 :: string where
  "send502 = ''502 Command not implemented'' @ CRLF"

definition send503 :: string where
  "send503 = ''503 Bad sequence of commands'' @ CRLF"

definition send555 :: string where
  "send555 = ''555 Recipient not recognized'' @ CRLF"

text \<open>
  \<open>checkMailSyntax(str, size)\<close> and \<open>checkRcptSyntax(str, size)\<close>, called with
  \<open>size = strlen(str)\<close> on the string \<open>retrieveArgs\<close> returned. \<open>sscanf\<close> cannot fail
  where it is called: the string holds a \<open><\<close>.
\<close>

definition checkMailSyntax :: "string \<Rightarrow> nat \<Rightarrow> bool" where
  "checkMailSyntax str n =
     (case (strchr str (CHR ''<''), strrchr str (CHR ''>'')) of
        (Some openBracket, Some closeBracket) \<Rightarrow>
          if int closeBracket - int openBracket > 1 then
            (case sscanf_s (Some 6) str of
               Some from \<Rightarrow>
                 if strcasecmp_eq from ''FROM:<'' then
                   (if str ! (n - 1) = CHR ''>'' then True else False)
                 else False
             | None \<Rightarrow> False)
          else False
      | _ \<Rightarrow> False)"

definition checkRcptSyntax :: "string \<Rightarrow> nat \<Rightarrow> bool" where
  "checkRcptSyntax str n =
     (case (strchr str (CHR ''<''), strrchr str (CHR ''>'')) of
        (Some openBracket, Some closeBracket) \<Rightarrow>
          if int closeBracket - int openBracket > 1 then
            (case sscanf_s (Some 4) str of
               Some to \<Rightarrow>
                 if strcasecmp_eq to ''TO:<'' then
                   (if str ! (n - 1) = CHR ''>'' then True else False)
                 else False
             | None \<Rightarrow> False)
          else False
      | _ \<Rightarrow> False)"

text \<open>
  \<open>retrieveEmail(str)\<close>, called after the syntax check, so both brackets are there: the
  last \<open>>\<close> is overwritten with a zero byte and the string behind the first \<open><\<close> is
  returned.
\<close>

definition retrieveEmail :: "string \<Rightarrow> string" where
  "retrieveEmail str =
     (let ret = length (takeWhile (\<lambda>x. x \<noteq> CHR ''<'') str);
          closeBracket = length str - 1 - length (takeWhile (\<lambda>x. x \<noteq> CHR ''>'') (rev str))
      in cstr (drop (Suc ret) (str[closeBracket := NUL])))"

text \<open>
  \<open>saveEmail(fromEmail, toEmail, data)\<close>: \<open>tempfd\<close> is what \<open>mkstemp\<close> returns, \<open>-1\<close> when
  it fails. The second component is what is handed to \<open>save_user_mail\<close>: the recipient and
  the content of the temporary file.
\<close>

definition saveEmail :: "int \<Rightarrow> string \<Rightarrow> string \<Rightarrow> string \<Rightarrow> int \<times> (string \<times> string) list" where
  "saveEmail tempfd from to dat = (tempfd, if tempfd \<noteq> - 1 then [(to, dat)] else [])"

text \<open>
  The loop over the recipients at the end of the data: \<open>success\<close> is assigned by every
  call of \<open>saveEmail\<close>. The \<open>i\<close>-th call of the loop gets \<open>mk i\<close> from \<open>mkstemp\<close>.
\<close>

fun save_all ::
  "(nat \<Rightarrow> int) \<Rightarrow> string \<Rightarrow> string list \<Rightarrow> string \<Rightarrow> nat \<Rightarrow> int \<Rightarrow> int \<times> (string \<times> string) list" where
  "save_all mk from [] dat i success = (success, [])"
| "save_all mk from (to # rest) dat i success =
     (case saveEmail (mk i) from to dat of
        (success', saved) \<Rightarrow>
          (case save_all mk from rest dat (Suc i) success' of
             (r, saved') \<Rightarrow> (r, saved @ saved')))"

text \<open>
  What the server takes from outside: the user store, the host name \<open>gethostname\<close>
  returns, and the results of \<open>mkstemp\<close>.
\<close>

record smtpd_env = user_store +
  domainName :: string
  mkstemp :: "nat \<Rightarrow> int"

text \<open>
  The variables of \<open>handle_client\<close> that live across iterations of its loop. \<open>toEmail\<close> is
  the array of 30 names, \<open>data\<close> the string in the block of 64001 bytes. \<open>delivered\<close> is
  not a variable of the program: it records what has been handed to \<open>save_user_mail\<close>.
\<close>

record smtpd_state =
  received_helo :: bool
  received_mail :: bool
  received_rcpt :: bool
  received_data :: bool
  rcpt_count :: nat
  data :: string
  fromEmail :: string
  toEmail :: "string list"
  smtp_command :: "string option"
  delivered :: "(string \<times> string) list"

definition smtpd_init :: smtpd_state where
  "smtpd_init =
     \<lparr>received_helo = False, received_mail = False, received_rcpt = False,
      received_data = False, rcpt_count = 0, data = [], fromEmail = [],
      toEmail = replicate 30 [], smtp_command = None, delivered = []\<rparr>"

definition smtpd_welcome :: "smtpd_env \<Rightarrow> string" where
  "smtpd_welcome env = ''220 '' @ domainName env @ '' SMTP Server Ready'' @ CRLF"

text \<open>\<open>strcpy(toEmail[rcpt_count++], email)\<close>.\<close>

definition add_recipient :: "smtpd_env \<Rightarrow> smtpd_state \<Rightarrow> string \<Rightarrow> fault + smtpd_state" where
  "add_recipient env s email =
     (if rcpt_count s \<ge> 30 then Inl RecipientOverflow
      else (case strcpy (MAX_USERNAME_SIZE env) (Some email) of
              Inl f \<Rightarrow> Inl f
            | Inr e \<Rightarrow> Inr (s\<lparr>toEmail := (toEmail s)[rcpt_count s := e],
                              rcpt_count := rcpt_count s + 1\<rparr>)))"

text \<open>The branch \<open>if (received_data)\<close>.\<close>

definition smtpd_data :: "smtpd_env \<Rightarrow> smtpd_state \<Rightarrow> string \<Rightarrow> smtpd_state outcome" where
  "smtpd_data env s reply =
     (if take 3 (cstr reply) = ''.'' @ CRLF \<and> length reply = 3 then
        (case save_all (mkstemp env) (fromEmail s) (take (rcpt_count s) (toEmail s)) (data s) 0 0 of
           (success, saved) \<Rightarrow>
             Inr (s\<lparr>received_data := False, rcpt_count := 0, delivered := delivered s @ saved\<rparr>,
                  [if success = - 1 then send451 else send250], False))
      else if length (data s) + length (cstr reply) > 64000 then Inl DataOverflow
      else Inr (s\<lparr>data := data s @ cstr reply\<rparr>, [], False))"

text \<open>The branch \<open>else if (received_mail)\<close>.\<close>

definition smtpd_mail :: "smtpd_env \<Rightarrow> smtpd_state \<Rightarrow> string \<Rightarrow> string \<Rightarrow> smtpd_state outcome" where
  "smtpd_mail env s cmd reply =
     (if strcasecmp_eq cmd ''RCPT'' then
        (case retrieveArgs reply of
           Some rcptArgs \<Rightarrow>
             if checkRcptSyntax rcptArgs (length rcptArgs) then
               (if is_valid_user env (retrieveEmail rcptArgs) None then
                  (case add_recipient env s (retrieveEmail rcptArgs) of
                     Inl f \<Rightarrow> Inl f
                   | Inr s' \<Rightarrow>
                       Inr (s'\<lparr>received_rcpt := True, received_mail := False\<rparr>, [send250], False))
                else Inr (s, [send555], False))
             else Inr (s, [send501], False)
         | None \<Rightarrow> Inr (s, [send501], False))
      else if strcasecmp_eq cmd ''HELO'' \<or> strcasecmp_eq cmd ''MAIL'' \<or> strcasecmp_eq cmd ''DATA''
      then Inr (s, [send503], False)
      else Inr (s, [send500], False))"

text \<open>The branch \<open>else if (received_rcpt)\<close>.\<close>

definition smtpd_rcpt :: "smtpd_env \<Rightarrow> smtpd_state \<Rightarrow> string \<Rightarrow> string \<Rightarrow> smtpd_state outcome" where
  "smtpd_rcpt env s cmd reply =
     (if strcasecmp_eq cmd ''DATA'' \<and> length reply = 6 then
        Inr (s\<lparr>received_data := True, received_rcpt := False, data := []\<rparr>, [send354], False)
      else if strcasecmp_eq cmd ''RCPT'' then
        (case retrieveArgs reply of
           Some rcptArgs \<Rightarrow>
             if checkRcptSyntax rcptArgs (length rcptArgs) then
               (if is_valid_user env (retrieveEmail rcptArgs) None then
                  (case add_recipient env s (retrieveEmail rcptArgs) of
                     Inl f \<Rightarrow> Inl f
                   | Inr s' \<Rightarrow> Inr (s', [send250], False))
                else Inr (s, [send555], False))
             else Inr (s, [send501], False)
         | None \<Rightarrow> Inr (s, [send501], False))
      else if strcasecmp_eq cmd ''HELO'' \<or> strcasecmp_eq cmd ''MAIL''
      then Inr (s, [send503], False)
      else Inr (s, [send500], False))"

text \<open>The branch \<open>else if (received_helo)\<close>.\<close>

definition smtpd_helo :: "smtpd_env \<Rightarrow> smtpd_state \<Rightarrow> string \<Rightarrow> string \<Rightarrow> smtpd_state outcome" where
  "smtpd_helo env s cmd reply =
     (if strcasecmp_eq cmd ''MAIL'' then
        (case retrieveArgs reply of
           Some mailArgs \<Rightarrow>
             if checkMailSyntax mailArgs (length mailArgs) then
               (case strcpy (MAX_USERNAME_SIZE env) (Some (retrieveEmail mailArgs)) of
                  Inl f \<Rightarrow> Inl f
                | Inr email \<Rightarrow>
                    Inr (s\<lparr>received_mail := True, fromEmail := email\<rparr>, [send250], False))
             else Inr (s, [send501], False)
         | None \<Rightarrow> Inr (s, [send501], False))
      else if strcasecmp_eq cmd ''HELO'' \<or> strcasecmp_eq cmd ''RCPT'' \<or> strcasecmp_eq cmd ''DATA''
      then Inr (s, [send503], False)
      else Inr (s, [send500], False))"

text \<open>The last branch: no \<open>HELO\<close> yet. The answer is built in \<open>initialMessage[200]\<close>.\<close>

definition smtpd_initial :: "smtpd_env \<Rightarrow> smtpd_state \<Rightarrow> string \<Rightarrow> string \<Rightarrow> smtpd_state outcome" where
  "smtpd_initial env s cmd reply =
     (if strcasecmp_eq cmd ''HELO'' then
        (if length (''250 '' @ domainName env @ CRLF) > 199 then Inl MessageOverflow
         else Inr (s\<lparr>received_helo := True\<rparr>, [''250 '' @ domainName env @ CRLF], False))
      else if strcasecmp_eq cmd ''MAIL'' \<or> strcasecmp_eq cmd ''RCPT'' \<or> strcasecmp_eq cmd ''DATA''
      then Inr (s, [send503], False)
      else Inr (s, [send500], False))"

text \<open>The chain of branches for a line that passed the check, outside the data.\<close>

definition smtpd_command :: "smtpd_env \<Rightarrow> smtpd_state \<Rightarrow> string \<Rightarrow> string \<Rightarrow> smtpd_state outcome" where
  "smtpd_command env s cmd reply =
     (if strcasecmp_eq cmd ''NOOP'' then Inr (s, [send250], False)
      else if strcasecmp_eq cmd ''QUIT'' then Inr (s, [send221], True)
      else if strcasecmp_eq cmd ''EHLO'' \<or> strcasecmp_eq cmd ''RSET'' \<or>
              strcasecmp_eq cmd ''VRFY'' \<or> strcasecmp_eq cmd ''EXPN'' \<or>
              strcasecmp_eq cmd ''HELP''
      then Inr (s, [send502], False)
      else if received_mail s then smtpd_mail env s cmd reply
      else if received_rcpt s then smtpd_rcpt env s cmd reply
      else if received_helo s then smtpd_helo env s cmd reply
      else smtpd_initial env s cmd reply)"

text \<open>One iteration of the loop, as for the POP3 server.\<close>

definition smtpd_step :: "smtpd_env \<Rightarrow> smtpd_state \<Rightarrow> string \<Rightarrow> smtpd_state outcome" where
  "smtpd_step env s0 reply =
     (case scan_command (smtp_command s0) reply of
        Inl f \<Rightarrow> Inl f
      | Inr c \<Rightarrow>
          (let s = s0\<lparr>smtp_command := c\<rparr> in
           if checkCRLF reply (length reply) \<or>
              (received_data s \<and> checkCRLFSimple reply (length reply)) then
             (if received_data s then smtpd_data env s reply
              else with_command c (\<lambda>cmd. smtpd_command env s cmd reply))
           else Inr (s, [send500], False)))"

abbreviation smtpd_run ::
  "smtpd_env \<Rightarrow> smtpd_state \<Rightarrow> string list \<Rightarrow> fault + (smtpd_state \<times> string list)" where
  "smtpd_run env \<equiv> session_run (smtpd_step env)"

section \<open>The loop of handle_client\<close>

text \<open>
  Both servers run the same loop around their step: read a line; leave on end of
  stream or read error; handle the line; leave on \<open>break\<close>. \<open>reply\<close> is the array the
  reader fills, and the line is its first \<open>reply_size\<close> bytes. The loop ends because every
  line takes bytes out of what the buffer holds and the socket has yet to deliver.
\<close>

fun socket_bytes :: "recv_event list \<Rightarrow> nat" where
  "socket_bytes [] = 0"
| "socket_bytes (Error # es) = socket_bytes es"
| "socket_bytes (Data d # es) = length d + socket_bytes es"

function client_loop ::
  "('st \<Rightarrow> string \<Rightarrow> 'st outcome) \<Rightarrow> socket_buffer \<Rightarrow> string \<Rightarrow> 'st \<Rightarrow> fault + string list" where
  "client_loop step buffer reply s =
     (case sb_read_line buffer reply of
        (reply_size, reply', buffer') \<Rightarrow>
          if reply_size = 0 \<or> reply_size = - 1 then Inr []
          else (case step s (take (nat reply_size) reply') of
                  Inl f \<Rightarrow> Inl f
                | Inr (s', sent, stop) \<Rightarrow>
                    if stop then Inr sent
                    else (case client_loop step buffer' reply' s' of
                            Inl f \<Rightarrow> Inl f
                          | Inr sent' \<Rightarrow> Inr (sent @ sent'))))"
  by pat_completeness auto
termination
proof -
  have rc: "recv f n = (rv, d, f') \<Longrightarrow>
      - 1 \<le> rv \<and> socket_bytes f' + nat rv = socket_bytes f" for f n rv d f'
    by (induction f n rule: recv.induct) (auto split: if_splits)
  have mc: "memchr b c n = Some k \<Longrightarrow> k < n" for b c n k
    by (induction b c n arbitrary: k rule: memchr.induct) (auto split: if_splits)
  have consumes: "sb_read_line sb out = (rv, out', sb') \<Longrightarrow> rv \<noteq> 0 \<Longrightarrow> rv \<noteq> - 1 \<Longrightarrow>
      avail_data sb' + socket_bytes (fd sb') < avail_data sb + socket_bytes (fd sb)"
    for sb out rv out' sb'
  proof (induction sb out arbitrary: rv out' sb' rule: sb_read_line.induct)
    case (1 sb out)
    show ?case
    proof (cases "memchr (buf sb) LF (avail_data sb)")
      case (Some k)
      with "1.prems" mc [OF Some] show ?thesis
        by (subst (asm) sb_read_line.simps) (auto simp: sb_emit_def)
    next
      case None
      show ?thesis
      proof (cases "avail_data sb < max_bytes sb")
        case False
        with None "1.prems" show ?thesis
          by (subst (asm) sb_read_line.simps) (auto simp: sb_emit_def)
      next
        case True
        obtain rv0 d f' where rr: "recv (fd sb) (max_bytes sb - avail_data sb) = (rv0, d, f')"
          by (cases "recv (fd sb) (max_bytes sb - avail_data sb)") auto
        note b = rc [OF rr]
        consider "rv0 = - 1" | "rv0 = 0" | "0 < rv0" using b by linarith
        then show ?thesis
        proof cases
          case 1
          with None True rr "1.prems" show ?thesis
            by (subst (asm) sb_read_line.simps) simp
        next
          case 2
          with None True rr "1.prems" b show ?thesis
            by (subst (asm) sb_read_line.simps) (auto simp: sb_emit_def)
        next
          case 3
          let ?sb = "sb\<lparr>fd := f', buf := take (avail_data sb) (buf sb) @ d,
                        avail_data := avail_data sb + nat rv0\<rparr>"
          have "sb_read_line ?sb out = (rv, out', sb')"
            using None True rr 3 "1.prems"(1) by (subst (asm) sb_read_line.simps) simp
          from "1.IH" [OF None True rr [symmetric] refl _ _ this "1.prems"(2,3)] 3 b
          show ?thesis by simp
        qed
      qed
    qed
  qed
  have consumes': "(rv, out', sb') = sb_read_line sb out \<Longrightarrow> rv \<noteq> 0 \<Longrightarrow> rv \<noteq> - 1 \<Longrightarrow>
      avail_data sb' + socket_bytes (fd sb') < avail_data sb + socket_bytes (fd sb)"
    for sb out rv out' sb'
    using consumes [of sb out rv out' sb'] by simp
  show ?thesis
    by (relation "measure (\<lambda>(step, b, r, s). avail_data b + socket_bytes (fd b))")
       (auto dest: consumes')
qed

declare client_loop.simps [simp del]

text \<open>\<open>handle_client\<close> of \<open>popd.c\<close> and of \<open>smtpd.c\<close>: the greeting, then the loop.\<close>

definition popd_handle_client :: "user_store \<Rightarrow> recv_event list \<Rightarrow> fault + string list" where
  "popd_handle_client us f =
     (case client_loop (popd_step us) (sb_create f MAX_LINE_LENGTH)
             (replicate (MAX_LINE_LENGTH + 1) NUL) popd_init of
        Inl e \<Rightarrow> Inl e
      | Inr sent \<Rightarrow> Inr (sendWelcome # sent))"

definition smtpd_handle_client :: "smtpd_env \<Rightarrow> recv_event list \<Rightarrow> fault + string list" where
  "smtpd_handle_client env f =
     (case client_loop (smtpd_step env) (sb_create f MAX_LINE_LENGTH)
             (replicate (MAX_LINE_LENGTH + 1) NUL) smtpd_init of
        Inl e \<Rightarrow> Inl e
      | Inr sent \<Rightarrow> Inr (smtpd_welcome env # sent))"

text \<open>
  A segment that is one line for a buffer of \<open>m\<close> bytes: it fits, ends in a line feed and
  holds no other.
\<close>

definition one_line :: "nat \<Rightarrow> string \<Rightarrow> bool" where
  "one_line m l = (l \<noteq> [] \<and> length l \<le> m \<and> last l = LF \<and> LF \<notin> set (butlast l))"


section \<open>The states of an SMTP session\<close>

text \<open>
  The states the five flags stand for, as the comments of the branches name them: no flag
  before \<open>HELO\<close>, then \<open>received_helo\<close> for good, and with it at most one of the three
  others.
\<close>

datatype smtp_phase = GREETED | HELO_OK | MAIL_OK | RCPT_OK | DATA_MODE

definition phase :: "smtpd_state \<Rightarrow> smtp_phase option" where
  "phase s =
     (case (received_helo s, received_mail s, received_rcpt s, received_data s) of
        (False, False, False, False) \<Rightarrow> Some GREETED
      | (True, False, False, False) \<Rightarrow> Some HELO_OK
      | (True, True, False, False) \<Rightarrow> Some MAIL_OK
      | (True, False, True, False) \<Rightarrow> Some RCPT_OK
      | (True, False, False, True) \<Rightarrow> Some DATA_MODE
      | _ \<Rightarrow> None)"

text \<open>
  The states a session reaches: it starts in \<open>smtpd_init\<close> and goes on after every line
  that neither faults nor leaves the loop.
\<close>

inductive smtpd_reachable :: "smtpd_env \<Rightarrow> smtpd_state \<Rightarrow> bool" for env where
  start: "smtpd_reachable env smtpd_init"
| line: "smtpd_reachable env s \<Longrightarrow> smtpd_step env s reply = Inr (s', sent, False) \<Longrightarrow>
         smtpd_reachable env s'"

text \<open>
  The table of the specification, section 4.3, in its words: the commands for which a
  state mandates \<open>503 Bad sequence of commands\<close>. Commands are matched without regard to
  case.
\<close>

definition spec_mandates_503 :: "smtp_phase \<Rightarrow> string \<Rightarrow> bool" where
  "spec_mandates_503 p cmd =
     (case p of
        GREETED \<Rightarrow> strcasecmp_eq cmd ''MAIL'' \<or> strcasecmp_eq cmd ''RCPT'' \<or> strcasecmp_eq cmd ''DATA''
      | HELO_OK \<Rightarrow> strcasecmp_eq cmd ''HELO'' \<or> strcasecmp_eq cmd ''RCPT'' \<or> strcasecmp_eq cmd ''DATA''
      | MAIL_OK \<Rightarrow> strcasecmp_eq cmd ''HELO'' \<or> strcasecmp_eq cmd ''MAIL'' \<or> strcasecmp_eq cmd ''DATA''
      | RCPT_OK \<Rightarrow> strcasecmp_eq cmd ''HELO'' \<or> strcasecmp_eq cmd ''MAIL''
      | DATA_MODE \<Rightarrow> False)"

section \<open>A store and a host for the examples\<close>

text \<open>
  One user, \<open>alice\<close>, with the password \<open>pw\<close> and two mails of 100 and 200 octets; two
  more names, \<open>bob\<close> and \<open>carol\<close>, exist without a password that would let them in.
\<close>

definition two_mails :: mail_list where
  "two_mails =
     [\<lparr>filename = ''mail1'', item_size = 100, deleted = False\<rparr>,
      \<lparr>filename = ''mail2'', item_size = 200, deleted = False\<rparr>]"

definition alice_store :: user_store where
  "alice_store =
     \<lparr>MAX_USERNAME_SIZE = 255,
      is_valid_user =
        (\<lambda>u p. (u = ''alice'' \<and> (p = None \<or> p = Some ''pw'')) \<or>
               ((u = ''bob'' \<or> u = ''carol'') \<and> p = None)),
      load_user_mail = (\<lambda>u. if u = ''alice'' then two_mails else []),
      mail_file = (\<lambda>f. None)\<rparr>"

text \<open>
  The host \<open>mx\<close> over that store. The first call of \<open>mkstemp\<close> in a loop of deliveries
  fails, the later ones return the descriptor 5.
\<close>

definition mx_env :: smtpd_env where
  "mx_env =
     \<lparr>MAX_USERNAME_SIZE = 255,
      is_valid_user =
        (\<lambda>u p. (u = ''alice'' \<and> (p = None \<or> p = Some ''pw'')) \<or>
               ((u = ''bob'' \<or> u = ''carol'') \<and> p = None)),
      load_user_mail = (\<lambda>u. if u = ''alice'' then two_mails else []),
      mail_file = (\<lambda>f. None),
      domainName = ''mx'',
      mkstemp = (\<lambda>i. if i = 0 then - 1 else 5)\<rparr>"

text \<open>The POP3 session of \<open>alice\<close> once \<open>USER alice\<close> and \<open>PASS pw\<close> have been accepted.\<close>

definition alice_session :: popd_state where
  "alice_session =
     \<lparr>authorization = False, transaction = True, accepted_user = True,
      command = Some ''PASS'', username = ''alice'', password = ''pw'',
      mailList = two_mails, mailCount = 2\<rparr>"

text \<open>
  The SMTP session on \<open>mx\<close> once \<open>HELO x\<close>, \<open>MAIL FROM:<a@x>\<close>, \<open>RCPT TO:<bob>\<close> and \<open>DATA\<close>
  have been accepted.
\<close>

definition data_session :: smtpd_state where
  "data_session =
     \<lparr>received_helo = True, received_mail = False, received_rcpt = False,
      received_data = True, rcpt_count = 1, data = [], fromEmail = ''a@x'',
      toEmail = (replicate 30 [])[0 := ''bob''], smtp_command = Some ''DATA'', delivered = []\<rparr>"
section \<open>The line reader: what a call returns\<close>

lemma memchr_None_iff: "memchr b c n = None \<longleftrightarrow> c \<notin> set (take n b)"
  by (induction b c n rule: memchr.induct) auto

lemma memchr_SomeD: "memchr b c n = Some k \<Longrightarrow> k < n \<and> k < length b \<and> b ! k = c \<and> c \<notin> set (take k b)"
  by (induction b c n arbitrary: k rule: memchr.induct) (auto split: if_splits simp: nth_Cons')

lemma memchr_append: "memchr b c (length b) = Some k \<Longrightarrow> length b \<le> n \<Longrightarrow> memchr (b @ x) c n = Some k"
  by (induction b c n arbitrary: k rule: memchr.induct) (auto split: if_splits)

lemma recv_pos:
  "recv f n = (rv, d, f') \<Longrightarrow> 0 < rv \<Longrightarrow>
     d @ incoming f' = incoming f \<and> read_error f' = read_error f \<and> length d = nat rv \<and> nat rv \<le> n"
  by (induction f n rule: recv.induct) (auto split: if_splits)

lemma recv_zero:
  "recv f n = (0, d, f') \<Longrightarrow> 0 < n \<Longrightarrow> incoming f = [] \<and> \<not> read_error f"
  by (induction f n rule: recv.induct) (auto split: if_splits)

lemma recv_neg:
  "recv f n = (rv, d, f') \<Longrightarrow> rv < 0 \<Longrightarrow> incoming f = [] \<and> read_error f \<and> rv = - 1"
  by (induction f n rule: recv.induct) (auto split: if_splits)


lemma sb_read_line_post: "sb_inv sb \<Longrightarrow> sb_post sb out (sb_read_line sb out)"
proof (induction sb out rule: sb_read_line.induct)
  case (1 sb out)
  note inv = \<open>sb_inv sb\<close>
  then have len: "avail_data sb = length (buf sb)" and le: "length (buf sb) \<le> max_bytes sb"
    by (simp_all add: sb_inv_def)
  show ?case
  proof (cases "memchr (buf sb) LF (avail_data sb)")
    case (Some k)
    then have m: "memchr (pending sb) LF (max_bytes sb) = Some k"
      using memchr_append [of "buf sb" LF k "max_bytes sb" "incoming (fd sb)"] len le
      by (simp add: pending_def)
    have k: "k < length (buf sb)" using memchr_SomeD [OF Some] by simp
    show ?thesis
      using Some m k len le
      by (subst sb_read_line.simps) (simp add: sb_post_def sb_emit_def sb_inv_def pending_def)
  next
    case None
    then have nolf: "LF \<notin> set (buf sb)"
      using len by (simp add: memchr_None_iff)
    show ?thesis
    proof (cases "avail_data sb < max_bytes sb")
      case False
      with len le have full: "length (buf sb) = max_bytes sb" by simp
      have m: "memchr (pending sb) LF (max_bytes sb) = None"
        using nolf full by (simp add: memchr_None_iff pending_def)
      show ?thesis
        using None False m full len
        by (subst sb_read_line.simps) (simp add: sb_post_def sb_emit_def sb_inv_def pending_def)
    next
      case True
      obtain rv d f' where r: "recv (fd sb) (max_bytes sb - avail_data sb) = (rv, d, f')"
        by (cases "recv (fd sb) (max_bytes sb - avail_data sb)") auto
      consider (neg) "rv < 0" | (zero) "rv = 0" | (pos) "0 < rv" by linarith
      then show ?thesis
      proof cases
        case neg
        from recv_neg [OF r neg] have e: "incoming (fd sb) = []" "read_error (fd sb)" "rv = - 1"
          by simp_all
        have m: "memchr (pending sb) LF (max_bytes sb) = None"
          using nolf e by (auto simp: memchr_None_iff pending_def dest: in_set_takeD)
        show ?thesis
          using None True r neg e m len inv
          by (subst sb_read_line.simps) (simp add: sb_post_def sb_inv_def pending_def)
      next
        case zero
        from recv_zero [OF r [unfolded zero]] True
        have e: "incoming (fd sb) = []" "\<not> read_error (fd sb)" by simp_all
        have m: "memchr (pending sb) LF (max_bytes sb) = None"
          using nolf e by (auto simp: memchr_None_iff pending_def dest: in_set_takeD)
        show ?thesis
          using None True r zero e m len inv
          by (subst sb_read_line.simps) (simp add: sb_post_def sb_emit_def sb_inv_def pending_def)
      next
        case pos
        let ?sb = "sb\<lparr>fd := f', buf := take (avail_data sb) (buf sb) @ d,
                      avail_data := avail_data sb + nat rv\<rparr>"
        from recv_pos [OF r pos]
        have e: "d @ incoming f' = incoming (fd sb)" "read_error f' = read_error (fd sb)"
          "length d = nat rv" "nat rv \<le> max_bytes sb - avail_data sb" by simp_all
        have inv': "sb_inv ?sb" using e len True by (simp add: sb_inv_def)
        have pend: "pending ?sb = pending sb" using e len by (simp add: pending_def)
        have IH: "sb_post ?sb out (sb_read_line ?sb out)"
          using "1.IH" [OF None True r [symmetric] refl _ _ inv'] pos by simp
        have step: "sb_read_line sb out = sb_read_line ?sb out"
          using None True r pos by (subst sb_read_line.simps) simp
        have same: "sb_post sb out r = sb_post ?sb out r" for r
          unfolding sb_post_def pend using e(2) by (simp split: prod.splits option.splits)
        show ?thesis
          using IH by (simp only: step same)
      qed
    qed
  qed
qed



text \<open>
  C8. For a buffer that satisfies its invariant, \<open>sb_read_line\<close> returns at most
  \<open>max_bytes\<close> bytes; when it returns a count \<open>rv \<ge> 0\<close> the array \<open>out\<close> holds the first
  \<open>rv\<close> pending bytes and a zero byte at index \<open>rv\<close>; when the first \<open>max_bytes\<close> pending
  bytes hold no line feed it returns exactly \<open>max_bytes\<close> bytes; when the stream is closed
  before the buffer fills and before a line feed it returns all that is pending, at least one
  byte, or 0 when nothing is pending; when it fails there instead the call returns \<open>-1\<close>
  and leaves \<open>out\<close> alone. The invariant holds again afterwards.
\<close>

theorem sb_read_line_contract:
  assumes "sb_inv sb" and "sb_read_line sb out = (rv, out', sb')"
  shows "rv \<le> int (max_bytes sb) \<and>
         (0 \<le> rv \<longrightarrow> out' ! nat rv = NUL \<and> take (nat rv) out' = take (nat rv) (pending sb)) \<and>
         (LF \<notin> set (take (max_bytes sb) (pending sb)) \<and> max_bytes sb \<le> length (pending sb) \<longrightarrow>
            rv = int (max_bytes sb)) \<and>
         (LF \<notin> set (pending sb) \<and> length (pending sb) < max_bytes sb \<and> \<not> read_error (fd sb) \<longrightarrow>
            rv = int (length (pending sb)) \<and> (pending sb \<noteq> [] \<longrightarrow> 1 \<le> rv) \<and>
            (pending sb = [] \<longrightarrow> rv = 0)) \<and>
         (LF \<notin> set (pending sb) \<and> length (pending sb) < max_bytes sb \<and> read_error (fd sb) \<longrightarrow>
            rv = - 1 \<and> out' = out) \<and>
         sb_inv sb' \<and> max_bytes sb' = max_bytes sb"
proof -
  have post: "sb_post sb out (rv, out', sb')"
    using sb_read_line_post [OF assms(1), of out] assms(2) by simp
  show ?thesis
  proof (cases "memchr (pending sb) LF (max_bytes sb)")
    case (Some k)
    from memchr_SomeD [OF Some]
    have k: "k < max_bytes sb" "k < length (pending sb)" "pending sb ! k = LF" by simp_all
    then have "LF \<in> set (take (max_bytes sb) (pending sb))"
      by (auto simp: in_set_conv_nth intro!: exI [of _ k])
    moreover then have "LF \<in> set (pending sb)" by (rule in_set_takeD)
    moreover have "rv = int (Suc k)" "out' = take (Suc k) (pending sb) @ NUL # drop (k + 2) out"
      "sb_inv sb'" "max_bytes sb' = max_bytes sb"
      using post Some by (simp_all add: sb_post_def)
    moreover then have "nat rv = Suc k" by simp
    ultimately show ?thesis using k by (simp add: nth_append del: of_nat_Suc)
  next
    case None
    then have nolf: "LF \<notin> set (take (max_bytes sb) (pending sb))"
      by (simp add: memchr_None_iff)
    show ?thesis
    proof (cases "max_bytes sb \<le> length (pending sb)")
      case True
      then show ?thesis using post None by (simp add: sb_post_def nth_append)
    next
      case False
      have ne: "xs \<noteq> [] \<Longrightarrow> Suc 0 \<le> length xs" for xs :: string
        by (cases xs) simp_all
      show ?thesis
      proof (cases "read_error (fd sb)")
        case True
        then show ?thesis using post None False by (simp add: sb_post_def)
      next
        case nerr: False
        then show ?thesis using post None False by (simp add: sb_post_def nth_append ne)
      qed
    qed
  qed
qed

theorem sb_read_line_contract_witness:
  "sb_inv (sb_create [Data ''ab'', Data ''cde''] 4) \<and>
   sb_read_line (sb_create [Data ''ab'', Data ''cde''] 4) (replicate 5 (CHR ''x'')) =
     (4, ''abcd'' @ [NUL], \<lparr>fd = [Data ''e''], max_bytes = 4, avail_data = 0, buf = []\<rparr>) \<and>
   LF \<notin> set (take 4 (pending (sb_create [Data ''ab'', Data ''cde''] 4))) \<and>
   4 \<le> length (pending (sb_create [Data ''ab'', Data ''cde''] 4)) \<and>
   (''abcd'' @ [NUL]) ! nat 4 = NUL \<and>
   sb_inv (sb_create [Data ''ab''] 4) \<and>
   sb_read_line (sb_create [Data ''ab''] 4) (replicate 5 (CHR ''x'')) =
     (2, ''ab'' @ NUL # replicate 2 (CHR ''x''), \<lparr>fd = [], max_bytes = 4, avail_data = 0, buf = []\<rparr>) \<and>
   LF \<notin> set (pending (sb_create [Data ''ab''] 4)) \<and>
   length (pending (sb_create [Data ''ab''] 4)) < 4 \<and>
   \<not> read_error (fd (sb_create [Data ''ab''] 4)) \<and>
   sb_inv (sb_create [Data ''ab'', Error] 4) \<and>
   sb_read_line (sb_create [Data ''ab'', Error] 4) (replicate 5 (CHR ''x'')) =
     (- 1, replicate 5 (CHR ''x''), \<lparr>fd = [], max_bytes = 4, avail_data = 2, buf = ''ab''\<rparr>) \<and>
   read_error (fd (sb_create [Data ''ab'', Error] 4))"
proof -
  let ?full = "sb_create [Data ''ab'', Data ''cde''] 4"
  let ?closed = "sb_create [Data ''ab''] 4"
  let ?failed = "sb_create [Data ''ab'', Error] 4"
  let ?out = "replicate 5 (CHR ''x'')"
  have inv: "sb_inv ?full" "sb_inv ?closed" "sb_inv ?failed"
    by (simp_all add: sb_inv_def sb_create_def)
  have r1: "sb_read_line ?full ?out =
      (4, ''abcd'' @ [NUL], \<lparr>fd = [Data ''e''], max_bytes = 4, avail_data = 0, buf = []\<rparr>)"
    by (simp add: sb_read_line.simps sb_create_def sb_emit_def)
  have r2: "sb_read_line ?closed ?out =
      (2, ''ab'' @ NUL # replicate 2 (CHR ''x''), \<lparr>fd = [], max_bytes = 4, avail_data = 0, buf = []\<rparr>)"
    by (simp add: sb_read_line.simps sb_create_def sb_emit_def)
  have r3: "sb_read_line ?failed ?out =
      (- 1, ?out, \<lparr>fd = [], max_bytes = 4, avail_data = 2, buf = ''ab''\<rparr>)"
    by (simp add: sb_read_line.simps sb_create_def sb_emit_def)
  show ?thesis
    using sb_read_line_contract [OF inv(1) r1] sb_read_line_contract [OF inv(2) r2]
      sb_read_line_contract [OF inv(3) r3] inv r1 r2 r3
    by (simp add: pending_def sb_create_def)
qed

section \<open>The admissibility checks\<close>

lemmas c_defs = scan_command_def sscanf_s_def cstr_def isspace_def checkCRLF_def
  checkCRLFSimple_def with_command_def strcasecmp_eq_def tolower_def retrieveArgs_def
  strchr_def strrchr_def strtok_def strcpy_def

lemma checkCRLF_iff:
  "checkCRLF str n \<longleftrightarrow>
     3 < n \<and> str ! (n - 2) = CR \<and> str ! (n - 1) = LF \<and> \<not> isspace (str ! (n - 3))"
  by (auto simp: checkCRLF_def)

lemma checkCRLFSimple_iff:
  "checkCRLFSimple str n \<longleftrightarrow> 1 < n \<and> str ! (n - 2) = CR \<and> str ! (n - 1) = LF"
  by (simp add: checkCRLFSimple_def)

lemma checkCRLF_imp_Simple: "checkCRLF str n \<Longrightarrow> checkCRLFSimple str n"
  by (simp add: checkCRLF_iff checkCRLFSimple_iff)

lemma checkCRLFSimple_append: "checkCRLFSimple reply (length reply) \<longleftrightarrow> (\<exists>body. reply = body @ CRLF)"
proof
  assume "checkCRLFSimple reply (length reply)"
  then have n: "1 < length reply" and c: "reply ! (length reply - 2) = CR"
    and l: "reply ! (length reply - 1) = LF"
    by (simp_all add: checkCRLFSimple_iff)
  have "reply = take (length reply - 2) reply @ drop (length reply - 2) reply" by simp
  moreover have "drop (length reply - 2) reply = CRLF"
  proof (rule nth_equalityI)
    show "length (drop (length reply - 2) reply) = length CRLF" using n by simp
    fix i assume "i < length (drop (length reply - 2) reply)"
    then have "i = 0 \<or> i = 1" using n by auto
    then show "drop (length reply - 2) reply ! i = CRLF ! i"
    proof
      assume "i = 0" then show ?thesis using n c by simp
    next
      assume i: "i = 1"
      have "length reply - 2 + 1 = length reply - 1" using n by simp
      then show ?thesis using n l i by simp
    qed
  qed
  ultimately show "\<exists>body. reply = body @ CRLF" by metis
next
  assume "\<exists>body. reply = body @ CRLF"
  then obtain body where "reply = body @ CRLF" ..
  then show "checkCRLFSimple reply (length reply)"
    by (simp add: checkCRLFSimple_iff nth_append)
qed

lemma no_LF_last_fails:
  assumes "LF \<notin> set reply"
  shows "\<not> checkCRLF reply (length reply)" "\<not> checkCRLFSimple reply (length reply)"
proof -
  have "\<not> checkCRLFSimple reply (length reply)"
  proof
    assume "checkCRLFSimple reply (length reply)"
    then have "1 < length reply" "reply ! (length reply - 1) = LF"
      by (simp_all add: checkCRLFSimple_iff)
    then have "LF \<in> set reply" by (metis diff_less less_trans nth_mem zero_less_one)
    with assms show False by simp
  qed
  then show "\<not> checkCRLF reply (length reply)" "\<not> checkCRLFSimple reply (length reply)"
    using checkCRLF_imp_Simple by blast+
qed

text \<open>
  A line that fails the check is answered \<open>-ERR\<close> or \<open>500\<close> and changes nothing but
  \<open>command\<close>, provided its first word fits \<open>command\<close>.
\<close>

lemma popd_rejects:
  "\<not> checkCRLF reply (length reply) \<Longrightarrow> scan_command (command s) reply = Inr c \<Longrightarrow>
   popd_step us s reply = Inr (s\<lparr>command := c\<rparr>, [sendNegative], False)"
  by (simp add: popd_step_def)

lemma smtpd_rejects:
  "\<not> checkCRLF reply (length reply) \<Longrightarrow> \<not> received_data s \<Longrightarrow>
   scan_command (smtp_command s) reply = Inr c \<Longrightarrow>
   smtpd_step env s reply = Inr (s\<lparr>smtp_command := c\<rparr>, [send500], False)"
  by (simp add: smtpd_step_def)

lemma smtpd_rejects_data:
  "\<not> checkCRLFSimple reply (length reply) \<Longrightarrow> scan_command (smtp_command s) reply = Inr c \<Longrightarrow>
   smtpd_step env s reply = Inr (s\<lparr>smtp_command := c\<rparr>, [send500], False)"
proof -
  assume a: "\<not> checkCRLFSimple reply (length reply)" and c: "scan_command (smtp_command s) reply = Inr c"
  from a have "\<not> checkCRLF reply (length reply)" using checkCRLF_imp_Simple by blast
  with a c show ?thesis by (simp add: smtpd_step_def)
qed

text \<open>
  C2. The claim takes a line of three bytes for well-formed. The line \<open>a\<close> CR LF has three
  bytes, ends in CR LF and has no white space before the CR, and \<open>checkCRLF\<close> rejects
  it: its test is \<open>size > 3\<close>. Both servers answer it with their syntax error.
\<close>

theorem checkCRLF_rejects_three_bytes:
  "length (''a'' @ CRLF) = 3 \<and> \<not> isspace (CHR ''a'') \<and> \<not> checkCRLF (''a'' @ CRLF) 3 \<and>
   popd_step us popd_init (''a'' @ CRLF) =
     Inr (popd_init\<lparr>command := Some ''a''\<rparr>, [sendNegative], False) \<and>
   smtpd_step env smtpd_init (''a'' @ CRLF) =
     Inr (smtpd_init\<lparr>smtp_command := Some ''a''\<rparr>, [send500], False)"
  by (simp add: popd_step_def smtpd_step_def popd_init_def smtpd_init_def c_defs)

section \<open>Lines longer than the buffer\<close>

text \<open>
  C7. A line of more than 1024 bytes without a line feed comes out of the reader as a
  chunk of 1024 bytes. The chunk fails both checks, but \<open>sscanf\<close> runs before them: when the
  chunk has no white space among its first 41 bytes, the copy into \<open>command\<close> leaves the
  array, in both servers, whatever their state; a client that opens with such a line
  gets no answer to it that the program defines.
\<close>

theorem long_line_overflows_command:
  "fst (sb_read_line (sb_create [Data (replicate 1030 (CHR ''A'') @ CRLF)] MAX_LINE_LENGTH) out) = 1024 \<and>
   take 1024 (fst (snd (sb_read_line
      (sb_create [Data (replicate 1030 (CHR ''A'') @ CRLF)] MAX_LINE_LENGTH) out))) =
     replicate 1024 (CHR ''A'') \<and>
   \<not> checkCRLF (replicate 1024 (CHR ''A'')) 1024 \<and>
   popd_step us s (replicate 1024 (CHR ''A'')) = Inl CommandOverflow \<and>
   smtpd_step env t (replicate 1024 (CHR ''A'')) = Inl CommandOverflow \<and>
   popd_handle_client us [Data (replicate 1030 (CHR ''A'') @ CRLF)] = Inl CommandOverflow \<and>
   smtpd_handle_client env [Data (replicate 1030 (CHR ''A'') @ CRLF)] = Inl CommandOverflow"
proof -
  let ?sb = "sb_create [Data (replicate 1030 (CHR ''A'') @ CRLF)] MAX_LINE_LENGTH"
  have inv: "sb_inv ?sb" by (simp add: sb_inv_def sb_create_def)
  have p: "pending ?sb = replicate 1030 (CHR ''A'') @ CRLF"
    by (simp add: pending_def sb_create_def)
  have mb: "max_bytes ?sb = 1024" by (simp add: sb_create_def MAX_LINE_LENGTH_def)
  have m: "memchr (pending ?sb) LF (max_bytes ?sb) = None"
    unfolding memchr_None_iff p mb by simp
  have read: "\<exists>sb'. sb_read_line ?sb out =
      (1024, replicate 1024 (CHR ''A'') @ NUL # drop 1025 out, sb')" for out
  proof -
    obtain rv out' sb' where r: "sb_read_line ?sb out = (rv, out', sb')"
      by (cases "sb_read_line ?sb out") auto
    have "sb_post ?sb out (rv, out', sb')"
      using sb_read_line_post [OF inv, of out] r by simp
    then have "rv = 1024" "out' = replicate 1024 (CHR ''A'') @ NUL # drop 1025 out"
      using m unfolding sb_post_def p mb by simp_all
    with r show ?thesis by simp
  qed
  have step: "popd_step us s (replicate 1024 (CHR ''A'')) = Inl CommandOverflow"
    "smtpd_step env t (replicate 1024 (CHR ''A'')) = Inl CommandOverflow" for s t
    by (simp_all add: popd_step_def smtpd_step_def scan_command_def sscanf_s_def cstr_def isspace_def)
  have loop: "client_loop f ?sb out st = Inl CommandOverflow"
    if "f st (replicate 1024 (CHR ''A'')) = Inl CommandOverflow"
    for f :: "'st \<Rightarrow> string \<Rightarrow> 'st outcome" and out st
  proof -
    from read [of out] obtain sb' where
      "sb_read_line ?sb out = (1024, replicate 1024 (CHR ''A'') @ NUL # drop 1025 out, sb')" ..
    then show ?thesis using that by (subst client_loop.simps) simp
  qed
  from read [of out] have "fst (sb_read_line ?sb out) = 1024"
    "take 1024 (fst (snd (sb_read_line ?sb out))) = replicate 1024 (CHR ''A'')"
    by auto
  moreover have "\<not> checkCRLF (replicate 1024 (CHR ''A'')) 1024"
    by (simp add: checkCRLF_iff)
  moreover have "popd_handle_client us [Data (replicate 1030 (CHR ''A'') @ CRLF)] = Inl CommandOverflow"
    "smtpd_handle_client env [Data (replicate 1030 (CHR ''A'') @ CRLF)] = Inl CommandOverflow"
    unfolding popd_handle_client_def smtpd_handle_client_def
    using loop [of "popd_step us" popd_init, OF step(1)]
      loop [of "smtpd_step env" smtpd_init, OF step(2)]
    by simp_all
  ultimately show ?thesis using step by simp
qed


section \<open>The loop and its lines\<close>

text \<open>
  When every segment the socket delivers is one line, not longer than the buffer, the
  reader hands the segments over one by one, and the loop of \<open>handle_client\<close> sends what
  the session over these lines sends.
\<close>

lemma memchr_last:
  "l \<noteq> [] \<Longrightarrow> last l = LF \<Longrightarrow> LF \<notin> set (butlast l) \<Longrightarrow>
   memchr l LF (length l) = Some (length l - 1)"
proof (induction l)
  case Nil
  then show ?case by simp
next
  case (Cons x xs)
  show ?case
  proof (cases "xs = []")
    case True
    with Cons.prems show ?thesis by simp
  next
    case False
    with Cons.prems have "x \<noteq> LF" "last xs = LF" "LF \<notin> set (butlast xs)" by auto
    with Cons.IH [OF False] False show ?thesis by (cases xs) simp_all
  qed
qed

lemma read_one_line:
  assumes "one_line m l"
  shows "sb_read_line \<lparr>fd = Data l # rest, max_bytes = m, avail_data = 0, buf = []\<rparr> out =
     (int (length l), l @ NUL # drop (Suc (length l)) out,
      \<lparr>fd = rest, max_bytes = m, avail_data = 0, buf = []\<rparr>)"
proof -
  from assms have l: "l \<noteq> []" "length l \<le> m" "0 < length l"
    and m: "memchr l LF (length l) = Some (length l - 1)"
    by (auto simp: one_line_def memchr_last)
  then have pos: "0 < m" by linarith
  have "sb_read_line \<lparr>fd = Data l # rest, max_bytes = m, avail_data = 0, buf = []\<rparr> out =
      sb_read_line \<lparr>fd = rest, max_bytes = m, avail_data = length l, buf = l\<rparr> out"
    using l pos by (subst sb_read_line.simps) simp
  also have "\<dots> = (int (length l), l @ NUL # drop (Suc (length l)) out,
      \<lparr>fd = rest, max_bytes = m, avail_data = 0, buf = []\<rparr>)"
    using l m by (subst sb_read_line.simps) (simp add: sb_emit_def)
  finally show ?thesis .
qed

lemma read_end_of_stream:
  "fst (sb_read_line \<lparr>fd = [], max_bytes = m, avail_data = 0, buf = []\<rparr> out) = 0"
  by (subst sb_read_line.simps) (simp add: sb_emit_def)

lemma client_loop_lines:
  assumes "\<forall>l\<in>set ls. one_line m l"
  shows "client_loop step \<lparr>fd = map Data ls, max_bytes = m, avail_data = 0, buf = []\<rparr> out s =
     (case session_run step s ls of Inl f \<Rightarrow> Inl f | Inr (s', sent) \<Rightarrow> Inr sent)"
  using assms
proof (induction ls arbitrary: out s)
  case Nil
  have "fst (sb_read_line \<lparr>fd = [], max_bytes = m, avail_data = 0, buf = []\<rparr> out) = 0"
    by (rule read_end_of_stream)
  then show ?case
    by (subst client_loop.simps) (auto split: prod.splits)
next
  case (Cons l ls)
  then have l: "one_line m l" and ls: "\<forall>l\<in>set ls. one_line m l" by simp_all
  from l have "l \<noteq> []" by (simp add: one_line_def)
  then have len: "int (length l) \<noteq> 0" "int (length l) \<noteq> - 1" by simp_all
  have tk: "take (nat (int (length l))) (l @ NUL # drop (Suc (length l)) out) = l" by simp
  have "client_loop step \<lparr>fd = map Data (l # ls), max_bytes = m, avail_data = 0, buf = []\<rparr> out s =
      (case step s l of
         Inl f \<Rightarrow> Inl f
       | Inr (s', sent, stop) \<Rightarrow>
           if stop then Inr sent
           else (case client_loop step \<lparr>fd = map Data ls, max_bytes = m, avail_data = 0, buf = []\<rparr>
                        (l @ NUL # drop (Suc (length l)) out) s' of
                   Inl f \<Rightarrow> Inl f
                 | Inr sent' \<Rightarrow> Inr (sent @ sent')))"
    by (subst client_loop.simps) (simp only: list.map read_one_line [OF l] prod.case len tk if_False simp_thms)
  also have "\<dots> = (case session_run step s (l # ls) of Inl f \<Rightarrow> Inl f | Inr (s', sent) \<Rightarrow> Inr sent)"
    by (simp add: Cons.IH [OF ls] split: sum.splits prod.splits)
  finally show ?case .
qed

lemma popd_handle_client_lines:
  assumes "\<forall>l\<in>set ls. one_line MAX_LINE_LENGTH l"
  shows "popd_handle_client us (map Data ls) =
     (case popd_run us popd_init ls of
        Inl f \<Rightarrow> Inl f
      | Inr (s', sent) \<Rightarrow> Inr (sendWelcome # sent))"
  unfolding popd_handle_client_def sb_create_def client_loop_lines [OF assms]
  by (simp split: sum.splits prod.splits)

lemma smtpd_handle_client_lines:
  assumes "\<forall>l\<in>set ls. one_line MAX_LINE_LENGTH l"
  shows "smtpd_handle_client env (map Data ls) =
     (case smtpd_run env smtpd_init ls of
        Inl f \<Rightarrow> Inl f
      | Inr (s', sent) \<Rightarrow> Inr (smtpd_welcome env # sent))"
  unfolding smtpd_handle_client_def sb_create_def client_loop_lines [OF assms]
  by (simp split: sum.splits prod.splits)
section \<open>The sessions of the examples\<close>

text \<open>
  C3. After \<open>USER alice\<close> has been accepted, a \<open>USER\<close> with a name that does not resolve is
  answered \<open>-ERR\<close>, but \<open>accepted_user\<close> stays set, now beside the name that was refused:
  only the two failing branches of \<open>PASS\<close> clear the flag.
\<close>

theorem failed_USER_keeps_accepted_user:
  "popd_run alice_store popd_init [''USER alice'' @ CRLF, ''USER mallory'' @ CRLF] =
     Inr (popd_init\<lparr>command := Some ''USER'', username := ''mallory'', accepted_user := True\<rparr>,
          [sendPositive, sendNegative])"
  by (simp add: popd_step_def popd_authorization_def popd_init_def alice_store_def c_defs)

text \<open>
  C1. Two recipients, and \<open>mkstemp\<close> fails for the first delivery only: the loop leaves
  the result of the second in \<open>success\<close>, so the server answers \<open>250 OK\<close> although the mail
  has reached \<open>carol\<close> alone.
\<close>

theorem last_delivery_decides_reply:
  "smtpd_run mx_env smtpd_init
     [''HELO x'' @ CRLF, ''MAIL FROM:<a@x>'' @ CRLF, ''RCPT TO:<bob>'' @ CRLF,
      ''RCPT TO:<carol>'' @ CRLF, ''DATA'' @ CRLF, ''hi'' @ CRLF, ''.'' @ CRLF] =
   Inr (smtpd_init\<lparr>received_helo := True, data := ''hi'' @ CRLF, fromEmail := ''a@x'',
          toEmail := (replicate 30 [])[0 := ''bob'', 1 := ''carol''],
          smtp_command := Some ''.'', delivered := [(''carol'', ''hi'' @ CRLF)]\<rparr>,
        [''250 mx'' @ CRLF, send250, send250, send250, send354, send250]) \<and>
   smtpd_handle_client mx_env
     (map Data
        [''HELO x'' @ CRLF, ''MAIL FROM:<a@x>'' @ CRLF, ''RCPT TO:<bob>'' @ CRLF,
         ''RCPT TO:<carol>'' @ CRLF, ''DATA'' @ CRLF, ''hi'' @ CRLF, ''.'' @ CRLF]) =
   Inr [smtpd_welcome mx_env, ''250 mx'' @ CRLF, send250, send250, send250, send354, send250]"
proof -
  let ?ls = "[''HELO x'' @ CRLF, ''MAIL FROM:<a@x>'' @ CRLF, ''RCPT TO:<bob>'' @ CRLF,
      ''RCPT TO:<carol>'' @ CRLF, ''DATA'' @ CRLF, ''hi'' @ CRLF, ''.'' @ CRLF]"
  have recipients: "take (Suc (Suc 0)) ((replicate 30 [])[0 := ''bob'', Suc 0 := ''carol'']) = [''bob'', ''carol'']"
    by (simp add: eval_nat_numeral)
  have run: "smtpd_run mx_env smtpd_init ?ls =
      Inr (smtpd_init\<lparr>received_helo := True, data := ''hi'' @ CRLF, fromEmail := ''a@x'',
             toEmail := (replicate 30 [])[0 := ''bob'', 1 := ''carol''],
             smtp_command := Some ''.'', delivered := [(''carol'', ''hi'' @ CRLF)]\<rparr>,
           [''250 mx'' @ CRLF, send250, send250, send250, send354, send250])"
    by (simp add: smtpd_step_def smtpd_command_def smtpd_initial_def smtpd_helo_def smtpd_mail_def
        smtpd_rcpt_def smtpd_data_def add_recipient_def checkMailSyntax_def checkRcptSyntax_def
        retrieveEmail_def saveEmail_def smtpd_init_def mx_env_def c_defs recipients)
  have lines: "\<forall>l\<in>set ?ls. one_line MAX_LINE_LENGTH l"
    by (simp add: one_line_def MAX_LINE_LENGTH_def)
  show ?thesis
    unfolding smtpd_handle_client_lines [OF lines] run by simp
qed
lemma rcpt_bob_step:
  assumes "received_rcpt s" "\<not> received_data s" "\<not> received_mail s"
  shows "smtpd_step mx_env s (''RCPT TO:<bob>'' @ CRLF) =
     (if rcpt_count s \<ge> 30 then Inl RecipientOverflow
      else Inr (s\<lparr>smtp_command := Some ''RCPT'', toEmail := (toEmail s)[rcpt_count s := ''bob''],
                  rcpt_count := rcpt_count s + 1\<rparr>, [send250], False))"
  using assms
  by (simp add: smtpd_step_def smtpd_command_def smtpd_rcpt_def add_recipient_def
      checkRcptSyntax_def retrieveEmail_def mx_env_def c_defs)

lemma rcpt_bob_run:
  "received_rcpt s \<Longrightarrow> \<not> received_data s \<Longrightarrow> \<not> received_mail s \<Longrightarrow> rcpt_count s + n = 30 \<Longrightarrow>
   smtpd_run mx_env s (replicate (Suc n) (''RCPT TO:<bob>'' @ CRLF)) = Inl RecipientOverflow"
proof (induction n arbitrary: s)
  case 0
  then show ?case using rcpt_bob_step [of s] by simp
next
  case (Suc n)
  let ?s = "s\<lparr>smtp_command := Some ''RCPT'', toEmail := (toEmail s)[rcpt_count s := ''bob''],
                  rcpt_count := rcpt_count s + 1\<rparr>"
  have "smtpd_run mx_env ?s (replicate (Suc n) (''RCPT TO:<bob>'' @ CRLF)) = Inl RecipientOverflow"
    using Suc.prems by (intro Suc.IH) simp_all
  moreover have "smtpd_step mx_env s (''RCPT TO:<bob>'' @ CRLF) = Inr (?s, [send250], False)"
    using Suc.prems rcpt_bob_step [of s] by simp
  ultimately show ?case
    by (simp del: replicate.simps add: replicate_Suc [of "Suc n"])
qed

text \<open>
  C4. Nothing bounds \<open>rcpt_count\<close>: each accepted \<open>RCPT\<close> stores at \<open>toEmail[rcpt_count++]\<close>.
  After thirty accepted recipients the next one is stored behind the array.
\<close>

theorem thirty_first_recipient:
  "smtpd_run mx_env smtpd_init
     ((''HELO x'' @ CRLF) # (''MAIL FROM:<a@x>'' @ CRLF) # replicate 31 (''RCPT TO:<bob>'' @ CRLF)) =
   Inl RecipientOverflow \<and>
   smtpd_handle_client mx_env
     (map Data ((''HELO x'' @ CRLF) # (''MAIL FROM:<a@x>'' @ CRLF) #
                replicate 31 (''RCPT TO:<bob>'' @ CRLF))) =
   Inl RecipientOverflow"
proof -
  let ?l = "''RCPT TO:<bob>'' @ CRLF"
  obtain s1 where s1: "s1 = smtpd_init\<lparr>received_helo := True, smtp_command := Some ''HELO''\<rparr>"
    by simp
  obtain s2 where s2: "s2 = s1\<lparr>received_mail := True, fromEmail := ''a@x'', smtp_command := Some ''MAIL''\<rparr>"
    by simp
  obtain s3 where s3: "s3 = s2\<lparr>received_mail := False, received_rcpt := True, smtp_command := Some ''RCPT'',
              toEmail := (replicate 30 [])[0 := ''bob''], rcpt_count := 1\<rparr>"
    by simp
  have 1: "smtpd_step mx_env smtpd_init (''HELO x'' @ CRLF) = Inr (s1, [''250 mx'' @ CRLF], False)"
    unfolding s1 by (simp add: smtpd_step_def smtpd_command_def smtpd_initial_def smtpd_init_def mx_env_def c_defs)
  have 2: "smtpd_step mx_env s1 (''MAIL FROM:<a@x>'' @ CRLF) = Inr (s2, [send250], False)"
    unfolding s1 s2 by (simp add: smtpd_step_def smtpd_command_def smtpd_helo_def smtpd_init_def mx_env_def checkMailSyntax_def retrieveEmail_def c_defs)
  have 3: "smtpd_step mx_env s2 ?l = Inr (s3, [send250], False)"
    unfolding s1 s2 s3
    by (simp add: smtpd_step_def smtpd_command_def smtpd_mail_def add_recipient_def
        smtpd_init_def mx_env_def checkRcptSyntax_def retrieveEmail_def c_defs)
  have 4: "smtpd_run mx_env s3 (replicate (Suc 29) ?l) = Inl RecipientOverflow"
    by (rule rcpt_bob_run) (simp_all add: s1 s2 s3 smtpd_init_def)
  have r: "replicate 31 l = l # replicate (Suc 29) l" for l :: string
    by (simp add: eval_nat_numeral)
  have "smtpd_run mx_env s2 (?l # replicate (Suc 29) ?l) = Inl RecipientOverflow"
    using 3 4 by (simp del: replicate.simps)
  then have "smtpd_run mx_env s1 ((''MAIL FROM:<a@x>'' @ CRLF) # ?l # replicate (Suc 29) ?l) =
      Inl RecipientOverflow"
    using 2 by (simp del: replicate.simps)
  then have run: "smtpd_run mx_env smtpd_init
      ((''HELO x'' @ CRLF) # (''MAIL FROM:<a@x>'' @ CRLF) # replicate 31 ?l) = Inl RecipientOverflow"
    unfolding r using 1 by (simp del: replicate.simps)
  have lines: "\<forall>l\<in>set ((''HELO x'' @ CRLF) # (''MAIL FROM:<a@x>'' @ CRLF) # replicate 31 ?l).
      one_line MAX_LINE_LENGTH l"
    by (simp add: one_line_def MAX_LINE_LENGTH_def)
  show ?thesis
    unfolding smtpd_handle_client_lines [OF lines] run by simp
qed

section \<open>The numbers in the POP3 answers\<close>

lemma digits_small: "n < 10 \<Longrightarrow> digits n = [char_of (48 + n)]"
  by (subst digits.simps) simp

lemma digits_large: "\<not> n < 10 \<Longrightarrow> digits n = digits (n div 10) @ [char_of (48 + n mod 10)]"
  by (subst digits.simps) simp

lemma digits_not_Nil: "digits n \<noteq> []"
  by (cases "n < 10") (simp_all add: digits_small digits_large)

lemma digit_char_inj: "a < 10 \<Longrightarrow> b < 10 \<Longrightarrow> char_of (48 + a :: nat) = char_of (48 + b) \<Longrightarrow> a = b"
  by simp

lemma digit_char_isdigit: "a < 10 \<Longrightarrow> isdigit (char_of (48 + a :: nat))"
  by (simp add: isdigit_def)

lemma digits_isdigit: "c \<in> set (digits n) \<Longrightarrow> isdigit c"
proof (induction n rule: digits.induct)
  case (1 n)
  show ?case
  proof (cases "n < 10")
    case True
    with "1.prems" show ?thesis by (simp add: digits_small digit_char_isdigit)
  next
    case False
    with "1.prems" "1.IH" show ?thesis
      by (auto simp: digits_large digit_char_isdigit)
  qed
qed

lemma digits_inj: "digits n = digits m \<Longrightarrow> n = m"
proof (induction n arbitrary: m rule: digits.induct)
  case (1 n)
  show ?case
  proof (cases "n < 10")
    case True
    then have "m < 10"
      using "1.prems" digits_not_Nil [of "m div 10"]
      by (cases "m < 10") (simp_all add: digits_small digits_large)
    with True "1.prems" show ?thesis by (simp add: digits_small)
  next
    case False
    then have m: "\<not> m < 10"
      using "1.prems" digits_not_Nil [of "n div 10"]
      by (cases "m < 10") (simp_all add: digits_small digits_large)
    with False "1.prems"
    have "digits (n div 10) = digits (m div 10)" "char_of (48 + n mod 10) = char_of (48 + m mod 10)"
      by (simp_all add: digits_large)
    then have "n div 10 = m div 10" "n mod 10 = m mod 10"
      using "1.IH" [OF False] digit_char_inj [of "n mod 10" "m mod 10"] by simp_all
    then show ?thesis by (metis div_mult_mod_eq)
  qed
qed

lemma minus_not_digit: "\<not> isdigit (CHR ''-'')"
  by (simp add: isdigit_def)

lemma space_not_digit: "\<not> isdigit (CHR '' '')"
  by (simp add: isdigit_def)

lemma printf_d_inj: "printf_d i = printf_d j \<Longrightarrow> i = j"
proof -
  assume eq: "printf_d i = printf_d j"
  have hd: "isdigit (hd (digits n))" for n
    using digits_isdigit [of "hd (digits n)" n] digits_not_Nil [of n] by simp
  have neq: "CHR ''-'' # digits a \<noteq> digits b" for a b
    using hd [of b] minus_not_digit by (metis list.sel(1))
  show ?thesis
  proof (cases "i < 0")
    case True
    then have "j < 0" using eq neq [of "nat (- i)" "nat j"] by (auto simp: printf_d_def split: if_splits)
    with True eq have "nat (- i) = nat (- j)" by (simp add: printf_d_def digits_inj)
    with True \<open>j < 0\<close> show ?thesis by simp
  next
    case False
    then have "\<not> j < 0" using eq neq [of "nat (- j)" "nat i"] by (auto simp: printf_d_def split: if_splits)
    with False eq have "nat i = nat j" by (simp add: printf_d_def digits_inj)
    with False \<open>\<not> j < 0\<close> show ?thesis by simp
  qed
qed

lemma printf_d_no_space: "CHR '' '' \<notin> set (printf_d i)"
  using digits_isdigit space_not_digit by (auto simp: printf_d_def)

lemma split_at_space:
  assumes "a @ CHR '' '' # r = a' @ CHR '' '' # r'" "CHR '' '' \<notin> set a" "CHR '' '' \<notin> set a'"
  shows "a = a' \<and> r = r'"
proof -
  have "takeWhile (\<lambda>c. c \<noteq> CHR '' '') (a @ CHR '' '' # r) = a"
       "takeWhile (\<lambda>c. c \<noteq> CHR '' '') (a' @ CHR '' '' # r') = a'"
    using assms(2,3) by (auto simp: takeWhile_tail)
  with assms(1) have "a = a'" by simp
  with assms(1) show ?thesis by simp
qed

lemma sint_32_eq_iff: "sint (word_of_nat n :: 32 word) = int n \<longleftrightarrow> n < 2 ^ 31"
  by (simp add: signed_of_nat signed_take_bit_int_eq_self_iff)

lemma ucast_64_32_of_nat: "(ucast (word_of_nat n :: 64 word) :: 32 word) = word_of_nat n"
  by transfer (simp add: take_bit_take_bit)

lemma count_and_size_eq:
  "printf_d (sint (word_of_nat n :: 32 word)) @ CHR '' '' #
     printf_d (sint (ucast (word_of_nat sz :: 64 word) :: 32 word)) @ CRLF =
   printf_d (int n) @ CHR '' '' # printf_d (int sz) @ CRLF \<longleftrightarrow> n < 2 ^ 31 \<and> sz < 2 ^ 31"
  (is "?l = ?r \<longleftrightarrow> _")
proof
  assume "?l = ?r"
  from split_at_space [OF this printf_d_no_space printf_d_no_space]
  have "sint (word_of_nat n :: 32 word) = int n"
    "sint (ucast (word_of_nat sz :: 64 word) :: 32 word) = int sz"
    by (simp_all add: printf_d_inj)
  then show "n < 2 ^ 31 \<and> sz < 2 ^ 31"
    by (simp add: ucast_64_32_of_nat sint_32_eq_iff)
next
  assume "n < 2 ^ 31 \<and> sz < 2 ^ 31"
  then have "sint (word_of_nat n :: 32 word) = int n"
    "sint (ucast (word_of_nat sz :: 64 word) :: 32 word) = int sz"
    by (simp_all add: ucast_64_32_of_nat sint_32_eq_iff)
  then show "?l = ?r" by simp
qed

text \<open>
  C10. The answers built by \<open>sendCountPositive\<close> (for \<open>STAT\<close>, \<open>LIST\<close> and \<open>RSET\<close>) and by
  \<open>sendCount\<close> (the lines of a listing) print the count and the size as signed 32-bit
  integers. For a true count \<open>n\<close> and a true size \<open>sz\<close>, the text sent is the decimal text of
  \<open>n\<close> and \<open>sz\<close> exactly when both are below \<open>2^31\<close>.
\<close>

theorem count_lines_signed_int:
  "sendCountPositive c z =
     ''+OK '' @ printf_d (sint c) @ '' '' @ printf_d (sint (ucast z :: 32 word)) @ CRLF \<and>
   sendCount c z = printf_d (sint c) @ '' '' @ printf_d (sint (ucast z :: 32 word)) @ CRLF \<and>
   (sendCountPositive (word_of_nat n) (word_of_nat sz) =
      ''+OK '' @ printf_d (int n) @ '' '' @ printf_d (int sz) @ CRLF
    \<longleftrightarrow> n < 2 ^ 31 \<and> sz < 2 ^ 31) \<and>
   (sendCount (word_of_nat n) (word_of_nat sz) = printf_d (int n) @ '' '' @ printf_d (int sz) @ CRLF
    \<longleftrightarrow> n < 2 ^ 31 \<and> sz < 2 ^ 31)"
  using count_and_size_eq [of n sz] by (simp add: sendCountPositive_def sendCount_def)

theorem count_lines_signed_int_witness:
  "sendCountPositive (word_of_nat 1) (word_of_nat 100) = ''+OK 1 100'' @ CRLF \<and>
   (1 :: nat) < 2 ^ 31 \<and> (100 :: nat) < 2 ^ 31 \<and>
   sendCount (word_of_nat 2) (word_of_nat 4294967396) \<noteq> ''2 4294967396'' @ CRLF \<and>
   sendCount (word_of_nat 2) (word_of_nat 4294967396) = ''2 100'' @ CRLF \<and>
   \<not> (4294967396 :: nat) < 2 ^ 31"
proof -
  have d: "printf_d 1 = ''1''" "printf_d 2 = ''2''" "printf_d 100 = ''100''"
    "printf_d 4294967396 = ''4294967396''"
    by (simp_all add: printf_d_def digits.simps char_of_def bit_numeral_simps bit_Suc_0_iff)
  have "sendCount (word_of_nat 2) (word_of_nat 4294967396) = ''2 100'' @ CRLF"
    by (simp add: sendCount_def d)
  then show ?thesis
    using count_lines_signed_int [of _ _ 1 100] count_lines_signed_int [of _ _ 2 4294967396] d
    by simp
qed

section \<open>Deleting and resetting\<close>

lemma reset_mark:
  "reset_mail_list_deleted_flag (mark_mail_item_deleted ml m) = reset_mail_list_deleted_flag ml"
proof (cases "m < length ml")
  case True
  then show ?thesis
    by (simp add: reset_mail_list_deleted_flag_def mark_mail_item_deleted_def map_update
        list_update_same_conv)
next
  case False
  then have "ml[m := (ml ! m)\<lparr>deleted := True\<rparr>] = ml" by (simp add: list_update_beyond)
  then show ?thesis by (simp add: mark_mail_item_deleted_def)
qed

lemma reset_none_deleted:
  "\<forall>m\<in>set ml. \<not> deleted m \<Longrightarrow> reset_mail_list_deleted_flag ml = ml"
  by (induction ml) (simp_all add: reset_mail_list_deleted_flag_def)

lemma rset_step:
  assumes "transaction s" "\<not> authorization s"
  shows "popd_step us s (''RSET'' @ CRLF) =
     Inr (s\<lparr>command := Some ''RSET'', mailList := reset_mail_list_deleted_flag (mailList s)\<rparr>,
          [sendCountPositive
             (word_of_nat (get_mail_count (reset_mail_list_deleted_flag (mailList s))))
             (word_of_nat (get_mail_list_size (reset_mail_list_deleted_flag (mailList s))))],
          False)"
  using assms by (simp add: popd_step_def popd_transaction_def c_defs Let_def)

lemma dele_step:
  assumes "transaction s" "\<not> authorization s" "checkCRLF reply (length reply)"
    and "scan_command (command s) reply = Inr (Some cmd)" "strcasecmp_eq cmd ''DELE''"
  shows "\<exists>s1 r. popd_step us s reply = Inr (s1, [r], False) \<and>
           transaction s1 \<and> \<not> authorization s1 \<and>
           (mailList s1 = mailList s \<or> (\<exists>m. mailList s1 = mark_mail_item_deleted (mailList s) m))"
proof -
  have cmd: "map tolower cmd = map tolower ''DELE''"
    using assms(5) by (simp add: strcasecmp_eq_def)
  have step: "popd_step us s reply = popd_transaction us (s\<lparr>command := Some cmd\<rparr>) cmd reply"
    using assms by (simp add: popd_step_def with_command_def)
  show ?thesis
    unfolding step popd_transaction_def strcasecmp_eq_def cmd
    using assms(1,2) by (auto simp: Let_def tolower_def split: option.splits)
qed

text \<open>
  C6, as the code has it. \<open>RSET\<close> clears every mark, so \<open>DELE\<close> then \<open>RSET\<close> gives back the
  count and the size of before the \<open>DELE\<close> when no item was marked then: whatever the
  argument of the \<open>DELE\<close>, and whether it is answered \<open>+OK\<close> or \<open>-ERR\<close>, both steps return,
  and after the \<open>RSET\<close> the count of the mails not deleted and their total size are those
  of before the \<open>DELE\<close>. The one line that \<open>RSET\<close> sends is what \<open>sendCountPositive\<close> makes
  of the two, as 32-bit and 64-bit values; how it prints them is C10's matter.
\<close>

theorem dele_then_rset_restores:
  assumes "transaction s" "\<not> authorization s" "\<forall>m\<in>set (mailList s). \<not> deleted m"
    and "checkCRLF reply (length reply)"
    and "scan_command (command s) reply = Inr (Some cmd)" "strcasecmp_eq cmd ''DELE''"
  shows "\<exists>s1 r s2.
           popd_step us s reply = Inr (s1, [r], False) \<and>
           popd_step us s1 (''RSET'' @ CRLF) =
             Inr (s2, [sendCountPositive (word_of_nat (get_mail_count (mailList s)))
                                         (word_of_nat (get_mail_list_size (mailList s)))], False) \<and>
           get_mail_count (mailList s2) = get_mail_count (mailList s) \<and>
           get_mail_list_size (mailList s2) = get_mail_list_size (mailList s)"
proof -
  from dele_step [OF assms(1,2,4,5,6), of us]
  obtain s1 r where step: "popd_step us s reply = Inr (s1, [r], False)"
    and s1: "transaction s1" "\<not> authorization s1"
    and ml: "mailList s1 = mailList s \<or> (\<exists>m. mailList s1 = mark_mail_item_deleted (mailList s) m)"
    by blast
  have reset: "reset_mail_list_deleted_flag (mailList s1) = mailList s"
    using ml reset_none_deleted [OF assms(3)] by (auto simp: reset_mark)
  from rset_step [OF s1, of us] reset
  have "popd_step us s1 (''RSET'' @ CRLF) =
     Inr (s1\<lparr>command := Some ''RSET'', mailList := mailList s\<rparr>,
          [sendCountPositive (word_of_nat (get_mail_count (mailList s)))
                             (word_of_nat (get_mail_list_size (mailList s)))], False)"
    by simp
  with step show ?thesis by auto
qed

lemma alice_logs_in:
  "popd_run alice_store popd_init [''USER alice'' @ CRLF, ''PASS pw'' @ CRLF] =
     Inr (alice_session, [sendPositive, sendPositive])"
  by (simp add: popd_step_def popd_authorization_def popd_init_def alice_store_def
      alice_session_def two_mails_def get_mail_count_def c_defs)

lemma sendCountPositive_small:
  "n < 2 ^ 31 \<Longrightarrow> sz < 2 ^ 31 \<Longrightarrow>
   sendCountPositive (word_of_nat n) (word_of_nat sz) =
     ''+OK '' @ printf_d (int n) @ '' '' @ printf_d (int sz) @ CRLF"
  using count_and_size_eq [of n sz] by (simp add: sendCountPositive_def)

lemma printf_d_examples:
  "printf_d 0 = ''0''" "printf_d 1 = ''1''" "printf_d 2 = ''2''" "printf_d 100 = ''100''"
  "printf_d 200 = ''200''" "printf_d 300 = ''300''"
  by (simp_all add: printf_d_def digits.simps char_of_def bit_numeral_simps bit_Suc_0_iff)

theorem dele_then_rset_restores_witness:
  "transaction alice_session \<and> \<not> authorization alice_session \<and>
   list_all (\<lambda>m. \<not> deleted m) (mailList alice_session) \<and>
   checkCRLF (''DELE 1'' @ CRLF) (length (''DELE 1'' @ CRLF)) \<and>
   scan_command (command alice_session) (''DELE 1'' @ CRLF) = Inr (Some ''DELE'') \<and>
   strcasecmp_eq ''DELE'' ''DELE'' \<and>
   (\<exists>s1 r s2.
      popd_step alice_store alice_session (''DELE 1'' @ CRLF) = Inr (s1, [r], False) \<and>
      popd_step alice_store s1 (''RSET'' @ CRLF) = Inr (s2, [''+OK 2 300'' @ CRLF], False) \<and>
      get_mail_count (mailList s2) = 2 \<and> get_mail_list_size (mailList s2) = 300)"
proof -
  have h: "transaction alice_session" "\<not> authorization alice_session"
    "\<forall>m\<in>set (mailList alice_session). \<not> deleted m"
    "checkCRLF (''DELE 1'' @ CRLF) (length (''DELE 1'' @ CRLF))"
    "scan_command (command alice_session) (''DELE 1'' @ CRLF) = Inr (Some ''DELE'')"
    "strcasecmp_eq ''DELE'' ''DELE''"
    by (simp_all add: alice_session_def two_mails_def c_defs)
  have all: "list_all (\<lambda>m. \<not> deleted m) (mailList alice_session)"
    using h(3) by (simp add: list_all_iff)
  have totals: "get_mail_count (mailList alice_session) = 2"
    "get_mail_list_size (mailList alice_session) = 300"
    by (simp_all add: alice_session_def two_mails_def get_mail_count_def get_mail_list_size_def)
  have line: "sendCountPositive (word_of_nat 2) (word_of_nat 300) = ''+OK 2 300'' @ CRLF"
    using sendCountPositive_small [of 2 300] by (simp add: printf_d_examples)
  have "\<exists>s1 r s2.
      popd_step alice_store alice_session (''DELE 1'' @ CRLF) = Inr (s1, [r], False) \<and>
      popd_step alice_store s1 (''RSET'' @ CRLF) = Inr (s2, [''+OK 2 300'' @ CRLF], False) \<and>
      get_mail_count (mailList s2) = 2 \<and> get_mail_list_size (mailList s2) = 300"
    using dele_then_rset_restores [OF h, of alice_store] unfolding totals line .
  with h(1,2) all h(4,5,6) show ?thesis by blast
qed

text \<open>
  C6, as it is stated, fails where a mail was marked before: with mail 1 deleted, \<open>STAT\<close>
  reports one mail of 200 octets; \<open>DELE 2\<close> and \<open>RSET\<close> then report two mails of 300 octets.
\<close>

theorem dele_rset_counterexample:
  "popd_run alice_store alice_session
     [''DELE 1'' @ CRLF, ''STAT'' @ CRLF, ''DELE 2'' @ CRLF, ''RSET'' @ CRLF] =
   Inr (alice_session\<lparr>command := Some ''RSET''\<rparr>,
        [sendPositive, ''+OK 1 200'' @ CRLF, sendPositive, ''+OK 2 300'' @ CRLF]) \<and>
   ''+OK 1 200'' @ CRLF \<noteq> ''+OK 2 300'' @ CRLF \<and>
   popd_handle_client alice_store
     (map Data [''USER alice'' @ CRLF, ''PASS pw'' @ CRLF, ''DELE 1'' @ CRLF, ''STAT'' @ CRLF,
                ''DELE 2'' @ CRLF, ''RSET'' @ CRLF]) =
   Inr [sendWelcome, sendPositive, sendPositive, sendPositive, ''+OK 1 200'' @ CRLF,
        sendPositive, ''+OK 2 300'' @ CRLF]"
proof -
  let ?ls = "[''DELE 1'' @ CRLF, ''STAT'' @ CRLF, ''DELE 2'' @ CRLF, ''RSET'' @ CRLF]"
  have lines: "sendCountPositive 1 200 = ''+OK 1 200'' @ CRLF"
    "sendCountPositive 2 300 = ''+OK 2 300'' @ CRLF"
    using sendCountPositive_small [of 1 200] sendCountPositive_small [of 2 300]
    by (simp_all add: printf_d_examples)
  have idx: "arg_index ''1'' = 1" "arg_index ''2'' = 2"
    by (simp_all add: arg_index_def strtol_def)
  have run: "popd_run alice_store alice_session ?ls =
      Inr (alice_session\<lparr>command := Some ''RSET''\<rparr>,
           [sendPositive, ''+OK 1 200'' @ CRLF, sendPositive, ''+OK 2 300'' @ CRLF])"
    by (simp add: popd_step_def popd_transaction_def alice_session_def two_mails_def c_defs
        numbers_only_def isdigit_def idx get_mail_item_def mark_mail_item_deleted_def
        reset_mail_list_deleted_flag_def get_mail_count_def get_mail_list_size_def lines Let_def)
  have login: "popd_step alice_store popd_init (''USER alice'' @ CRLF) =
      Inr (popd_init\<lparr>command := Some ''USER'', username := ''alice'', accepted_user := True\<rparr>,
           [sendPositive], False)"
    "popd_step alice_store
       (popd_init\<lparr>command := Some ''USER'', username := ''alice'', accepted_user := True\<rparr>)
       (''PASS pw'' @ CRLF) = Inr (alice_session, [sendPositive], False)"
    by (simp_all add: popd_step_def popd_authorization_def popd_init_def alice_store_def
        alice_session_def two_mails_def get_mail_count_def c_defs)
  have whole: "popd_run alice_store popd_init
      ((''USER alice'' @ CRLF) # (''PASS pw'' @ CRLF) # ?ls) =
      Inr (alice_session\<lparr>command := Some ''RSET''\<rparr>,
           [sendPositive, sendPositive, sendPositive, ''+OK 1 200'' @ CRLF, sendPositive,
            ''+OK 2 300'' @ CRLF])"
    using login run by simp
  have ok: "\<forall>l\<in>set ((''USER alice'' @ CRLF) # (''PASS pw'' @ CRLF) # ?ls).
      one_line MAX_LINE_LENGTH l"
    by (simp add: one_line_def MAX_LINE_LENGTH_def)
  have "popd_handle_client alice_store
      (map Data ((''USER alice'' @ CRLF) # (''PASS pw'' @ CRLF) # ?ls)) =
      Inr [sendWelcome, sendPositive, sendPositive, sendPositive, ''+OK 1 200'' @ CRLF,
           sendPositive, ''+OK 2 300'' @ CRLF]"
    unfolding popd_handle_client_lines [OF ok] whole by simp
  with run show ?thesis by simp
qed

section \<open>Lines of a message\<close>

lemma cstr_no_NUL: "NUL \<notin> set reply \<Longrightarrow> cstr reply = reply"
  by (auto simp: cstr_def takeWhile_eq_all_conv)

lemma cstr_prefix: "cstr reply @ dropWhile (\<lambda>c. c \<noteq> NUL) reply = reply"
  by (simp add: cstr_def)

lemma end_of_data_iff:
  "take 3 (cstr reply) = [CHR ''.'', CR, LF] \<and> length reply = 3 \<longleftrightarrow> reply = [CHR ''.'', CR, LF]"
proof
  assume a: "take 3 (cstr reply) = [CHR ''.'', CR, LF] \<and> length reply = 3"
  then have "length (take 3 (cstr reply)) = 3" by simp
  then have "3 \<le> length (cstr reply)" by simp
  moreover have "length (cstr reply) + length (dropWhile (\<lambda>c. c \<noteq> NUL) reply) = 3"
    using a cstr_prefix [of reply] by (metis length_append)
  ultimately have l: "length (cstr reply) = 3" "length (dropWhile (\<lambda>c. c \<noteq> NUL) reply) = 0"
    by linarith+
  from l(2) have "dropWhile (\<lambda>c. c \<noteq> NUL) reply = []" by (simp only: length_0_conv)
  then have "cstr reply = reply" by (metis append_Nil2 cstr_prefix)
  moreover have "take 3 (cstr reply) = cstr reply" using l(1) by simp
  ultimately have "take 3 (cstr reply) = reply" by simp
  with a show "reply = [CHR ''.'', CR, LF]" by simp
next
  assume "reply = [CHR ''.'', CR, LF]"
  then show "take 3 (cstr reply) = [CHR ''.'', CR, LF] \<and> length reply = 3"
    by (simp add: cstr_def)
qed

lemma smtpd_data_end:
  "smtpd_data env s [CHR ''.'', CR, LF] =
     (case save_all (mkstemp env) (fromEmail s) (take (rcpt_count s) (toEmail s)) (data s) 0 0 of
        (success, saved) \<Rightarrow>
          Inr (s\<lparr>received_data := False, rcpt_count := 0, delivered := delivered s @ saved\<rparr>,
               [if success = - 1 then send451 else send250], False))"
  by (simp add: smtpd_data_def cstr_def)

lemma smtpd_data_other:
  "reply \<noteq> [CHR ''.'', CR, LF] \<Longrightarrow>
   smtpd_data env s reply =
     (if length (data s) + length (cstr reply) > 64000 then Inl DataOverflow
      else Inr (s\<lparr>data := data s @ cstr reply\<rparr>, [], False))"
  by (simp add: smtpd_data_def end_of_data_iff)

lemma data_admitted:
  "received_data s \<Longrightarrow>
   (checkCRLF reply (length reply) \<or> (received_data s \<and> checkCRLFSimple reply (length reply))) =
   (\<exists>body. reply = body @ CRLF)"
  using checkCRLF_imp_Simple [of reply "length reply"] checkCRLFSimple_append [of reply] by auto

lemma data_step:
  assumes "received_data s" "scan_command (smtp_command s) reply = Inr c"
  shows "smtpd_step env s reply =
     (if \<exists>body. reply = body @ CRLF then smtpd_data env (s\<lparr>smtp_command := c\<rparr>) reply
      else Inr (s\<lparr>smtp_command := c\<rparr>, [send500], False))"
  using assms data_admitted [of s reply] by (simp add: smtpd_step_def)

text \<open>
  C5, as the code has it. In the data, the line \<open>.\<close> CR LF, and no other, ends the message;
  a line needs nothing but its CR LF to be admitted, and a line without it is answered
  \<open>500\<close> and left out. An admitted line is appended as the C string it starts with: all of
  it, CR LF included, when it holds no zero byte, and what precedes its first zero byte
  otherwise. This is so whenever the first word of the line fits \<open>command\<close> and the
  message stays within the 64000 bytes of its block.
\<close>

theorem data_mode_lines:
  assumes "received_data s" and "scan_command (smtp_command s) reply = Inr c"
  shows
    "(reply = ''.'' @ CRLF \<longrightarrow>
        (\<exists>saved r. smtpd_step env s reply =
            Inr (s\<lparr>smtp_command := c, received_data := False, rcpt_count := 0,
                   delivered := delivered s @ saved\<rparr>, [r], False) \<and>
          (r = send250 \<or> r = send451))) \<and>
     (reply \<noteq> ''.'' @ CRLF \<longrightarrow>
        (\<forall>s' sent stop. smtpd_step env s reply = Inr (s', sent, stop) \<longrightarrow> received_data s')) \<and>
     ((\<exists>body. reply = body @ CRLF) \<and> reply \<noteq> ''.'' @ CRLF \<and>
      length (data s) + length (cstr reply) \<le> 64000 \<longrightarrow>
        smtpd_step env s reply = Inr (s\<lparr>smtp_command := c, data := data s @ cstr reply\<rparr>, [], False)) \<and>
     (NUL \<notin> set reply \<longrightarrow> cstr reply = reply) \<and>
     (\<not> (\<exists>body. reply = body @ CRLF) \<longrightarrow>
        smtpd_step env s reply = Inr (s\<lparr>smtp_command := c\<rparr>, [send500], False))"
proof (intro conjI impI)
  assume dot: "reply = ''.'' @ CRLF"
  then have b: "\<exists>body. reply = body @ CRLF" by blast
  obtain success saved where
    sv: "save_all (mkstemp env) (fromEmail s) (take (rcpt_count s) (toEmail s)) (data s) 0 0 =
          (success, saved)"
    by (cases "save_all (mkstemp env) (fromEmail s) (take (rcpt_count s) (toEmail s)) (data s) 0 0")
  have "smtpd_step env s reply =
      Inr (s\<lparr>smtp_command := c, received_data := False, rcpt_count := 0,
             delivered := delivered s @ saved\<rparr>,
           [if success = - 1 then send451 else send250], False)"
    unfolding data_step [OF assms] using b dot sv by (simp add: smtpd_data_end)
  then show "\<exists>saved r. smtpd_step env s reply =
            Inr (s\<lparr>smtp_command := c, received_data := False, rcpt_count := 0,
                   delivered := delivered s @ saved\<rparr>, [r], False) \<and>
          (r = send250 \<or> r = send451)"
    by auto
next
  assume "reply \<noteq> ''.'' @ CRLF"
  then have ne: "reply \<noteq> [CHR ''.'', CR, LF]" by simp
  show "\<forall>s' sent stop. smtpd_step env s reply = Inr (s', sent, stop) \<longrightarrow> received_data s'"
    unfolding data_step [OF assms] smtpd_data_other [OF ne] using assms(1)
    by (auto split: if_splits)
next
  assume a: "(\<exists>body. reply = body @ CRLF) \<and> reply \<noteq> ''.'' @ CRLF \<and>
      length (data s) + length (cstr reply) \<le> 64000"
  then have ne: "reply \<noteq> [CHR ''.'', CR, LF]" by simp
  show "smtpd_step env s reply = Inr (s\<lparr>smtp_command := c, data := data s @ cstr reply\<rparr>, [], False)"
    unfolding data_step [OF assms] smtpd_data_other [OF ne] using a by simp
next
  assume "NUL \<notin> set reply"
  then show "cstr reply = reply" by (rule cstr_no_NUL)
next
  assume "\<not> (\<exists>body. reply = body @ CRLF)"
  then show "smtpd_step env s reply = Inr (s\<lparr>smtp_command := c\<rparr>, [send500], False)"
    unfolding data_step [OF assms] by simp
qed

lemma mx_reaches_data:
  "smtpd_run mx_env smtpd_init
     [''HELO x'' @ CRLF, ''MAIL FROM:<a@x>'' @ CRLF, ''RCPT TO:<bob>'' @ CRLF, ''DATA'' @ CRLF] =
   Inr (data_session, [''250 mx'' @ CRLF, send250, send250, send354])"
  by (simp add: smtpd_step_def smtpd_command_def smtpd_initial_def smtpd_helo_def smtpd_mail_def
      smtpd_rcpt_def add_recipient_def checkMailSyntax_def checkRcptSyntax_def
      retrieveEmail_def smtpd_init_def data_session_def mx_env_def c_defs)

theorem data_mode_lines_witness:
  "received_data data_session \<and>
   scan_command (smtp_command data_session) (''hello  '' @ CRLF) = Inr (Some ''hello'') \<and>
   (\<exists>body. ''hello  '' @ CRLF = body @ CRLF) \<and> ''hello  '' @ CRLF \<noteq> ''.'' @ CRLF \<and>
   length (data data_session) + length (cstr (''hello  '' @ CRLF)) \<le> 64000 \<and>
   NUL \<notin> set (''hello  '' @ CRLF) \<and>
   smtpd_step mx_env data_session (''hello  '' @ CRLF) =
     Inr (data_session\<lparr>smtp_command := Some ''hello'', data := ''hello  '' @ CRLF\<rparr>, [], False) \<and>
   scan_command (smtp_command data_session) (''.'' @ CRLF) = Inr (Some ''.'') \<and>
   (\<exists>saved r. smtpd_step mx_env data_session (''.'' @ CRLF) =
      Inr (data_session\<lparr>smtp_command := Some ''.'', received_data := False, rcpt_count := 0,
             delivered := delivered data_session @ saved\<rparr>, [r], False) \<and>
      (r = send250 \<or> r = send451)) \<and>
   scan_command (smtp_command data_session) ''hello'' = Inr (Some ''hello'') \<and>
   \<not> (\<exists>body. ''hello'' = body @ CRLF) \<and>
   smtpd_step mx_env data_session ''hello'' =
     Inr (data_session\<lparr>smtp_command := Some ''hello''\<rparr>, [send500], False)"
proof -
  have r: "received_data data_session" by (simp add: data_session_def)
  have c1: "scan_command (smtp_command data_session) (''hello  '' @ CRLF) = Inr (Some ''hello'')"
    and c2: "scan_command (smtp_command data_session) (''.'' @ CRLF) = Inr (Some ''.'')"
    and c3: "scan_command (smtp_command data_session) ''hello'' = Inr (Some ''hello'')"
    by (simp_all add: c_defs)
  have b1: "\<exists>body. ''hello  '' @ CRLF = body @ CRLF" by blast
  have ne1: "''hello  '' @ CRLF \<noteq> ''.'' @ CRLF" by simp
  have nul: "NUL \<notin> set (''hello  '' @ CRLF)" by simp
  have n: "cstr (''hello  '' @ CRLF) = ''hello  '' @ CRLF" by (rule cstr_no_NUL [OF nul])
  have d: "data data_session = []" by (simp add: data_session_def)
  have len1: "length (data data_session) + length (cstr (''hello  '' @ CRLF)) \<le> 64000"
    unfolding n d by simp
  have b3: "\<not> (\<exists>body. ''hello'' = body @ CRLF)"
    using checkCRLFSimple_append [of "''hello''"] by (simp add: checkCRLFSimple_iff)
  have "smtpd_step mx_env data_session (''hello  '' @ CRLF) =
     Inr (data_session\<lparr>smtp_command := Some ''hello'',
            data := data data_session @ cstr (''hello  '' @ CRLF)\<rparr>, [], False)"
    using data_mode_lines [OF r c1, of mx_env] b1 ne1 len1 by blast
  then have s1: "smtpd_step mx_env data_session (''hello  '' @ CRLF) =
     Inr (data_session\<lparr>smtp_command := Some ''hello'', data := ''hello  '' @ CRLF\<rparr>, [], False)"
    unfolding n d append_Nil .
  have s2: "\<exists>saved r. smtpd_step mx_env data_session (''.'' @ CRLF) =
      Inr (data_session\<lparr>smtp_command := Some ''.'', received_data := False, rcpt_count := 0,
             delivered := delivered data_session @ saved\<rparr>, [r], False) \<and>
      (r = send250 \<or> r = send451)"
    using data_mode_lines [OF r c2, of mx_env] by blast
  have s3: "smtpd_step mx_env data_session ''hello'' =
     Inr (data_session\<lparr>smtp_command := Some ''hello''\<rparr>, [send500], False)"
    using data_mode_lines [OF r c3, of mx_env] b3 by blast
  show ?thesis
    by (intro conjI) (fact r c1 b1 ne1 len1 nul s1 c2 s2 c3 b3 s3)+
qed

text \<open>
  C5, as it is stated, fails on a line with a zero byte: of \<open>a\<close>, zero, \<open>b\<close>, CR, LF only
  the \<open>a\<close> is appended, since \<open>strcat\<close> copies a C string.
\<close>

theorem data_line_counterexample:
  "smtpd_step mx_env data_session (''a'' @ NUL # ''b'' @ CRLF) =
     Inr (data_session\<lparr>smtp_command := Some ''a'', data := ''a''\<rparr>, [], False) \<and>
   ''a'' \<noteq> data data_session @ (''a'' @ NUL # ''b'' @ CRLF)"
  by (simp add: smtpd_step_def smtpd_data_def data_session_def c_defs)

section \<open>The order of SMTP commands\<close>

lemma phase_flags:
  "phase s = Some GREETED \<longleftrightarrow>
     \<not> received_helo s \<and> \<not> received_mail s \<and> \<not> received_rcpt s \<and> \<not> received_data s"
  "phase s = Some HELO_OK \<longleftrightarrow>
     received_helo s \<and> \<not> received_mail s \<and> \<not> received_rcpt s \<and> \<not> received_data s"
  "phase s = Some MAIL_OK \<longleftrightarrow>
     received_helo s \<and> received_mail s \<and> \<not> received_rcpt s \<and> \<not> received_data s"
  "phase s = Some RCPT_OK \<longleftrightarrow>
     received_helo s \<and> \<not> received_mail s \<and> received_rcpt s \<and> \<not> received_data s"
  "phase s = Some DATA_MODE \<longleftrightarrow>
     received_helo s \<and> \<not> received_mail s \<and> \<not> received_rcpt s \<and> received_data s"
  by (auto simp: phase_def split: bool.splits)

lemma phase_command [simp]: "phase (s\<lparr>smtp_command := c\<rparr>) = phase s"
  by (simp add: phase_def)

lemma add_recipient_flags:
  "add_recipient env s email = Inr s' \<Longrightarrow>
   received_helo s' = received_helo s \<and> received_mail s' = received_mail s \<and>
   received_rcpt s' = received_rcpt s \<and> received_data s' = received_data s"
  by (auto simp: add_recipient_def split: if_splits sum.splits)

lemma smtpd_initial_phase:
  "phase s = Some GREETED \<Longrightarrow> smtpd_initial env s cmd reply = Inr (s', sent, stop) \<Longrightarrow>
   phase s' = Some GREETED \<or> phase s' = Some HELO_OK"
  by (auto simp: smtpd_initial_def phase_flags split: if_splits)

lemma smtpd_helo_phase:
  "phase s = Some HELO_OK \<Longrightarrow> smtpd_helo env s cmd reply = Inr (s', sent, stop) \<Longrightarrow>
   phase s' = Some HELO_OK \<or> phase s' = Some MAIL_OK"
  by (auto simp: smtpd_helo_def phase_flags split: if_splits option.splits sum.splits)

lemma smtpd_mail_phase:
  "phase s = Some MAIL_OK \<Longrightarrow> smtpd_mail env s cmd reply = Inr (s', sent, stop) \<Longrightarrow>
   phase s' = Some MAIL_OK \<or> phase s' = Some RCPT_OK"
  by (auto simp: smtpd_mail_def phase_flags split: if_splits option.splits sum.splits
      dest!: add_recipient_flags)

lemma smtpd_rcpt_phase:
  "phase s = Some RCPT_OK \<Longrightarrow> smtpd_rcpt env s cmd reply = Inr (s', sent, stop) \<Longrightarrow>
   phase s' = Some RCPT_OK \<or> phase s' = Some DATA_MODE"
  by (auto simp: smtpd_rcpt_def phase_flags split: if_splits option.splits sum.splits
      dest!: add_recipient_flags)

lemma smtpd_data_phase:
  "phase s = Some DATA_MODE \<Longrightarrow> smtpd_data env s reply = Inr (s', sent, stop) \<Longrightarrow>
   phase s' = Some DATA_MODE \<or> phase s' = Some HELO_OK"
  by (auto simp: smtpd_data_def phase_flags split: if_splits prod.splits)

lemma smtpd_command_phase:
  assumes "phase s \<noteq> None" "\<not> received_data s" "smtpd_command env s cmd reply = Inr (s', sent, stop)"
  shows "phase s' \<noteq> None"
proof -
  from assms(1) obtain p where p: "phase s = Some p" by auto
  consider "s' = s" | "smtpd_mail env s cmd reply = Inr (s', sent, stop)" "received_mail s"
    | "smtpd_rcpt env s cmd reply = Inr (s', sent, stop)" "\<not> received_mail s" "received_rcpt s"
    | "smtpd_helo env s cmd reply = Inr (s', sent, stop)" "\<not> received_mail s" "\<not> received_rcpt s"
      "received_helo s"
    | "smtpd_initial env s cmd reply = Inr (s', sent, stop)" "\<not> received_mail s" "\<not> received_rcpt s"
      "\<not> received_helo s"
    using assms(3) by (auto simp: smtpd_command_def split: if_splits)
  then show ?thesis
  proof cases
    case 1
    then show ?thesis using assms(1) by simp
  next
    case 2
    with p assms(2) have "phase s = Some MAIL_OK" by (cases p) (auto simp: phase_flags)
    from smtpd_mail_phase [OF this 2(1)] show ?thesis by auto
  next
    case 3
    with p assms(2) have "phase s = Some RCPT_OK" by (cases p) (auto simp: phase_flags)
    from smtpd_rcpt_phase [OF this 3(1)] show ?thesis by auto
  next
    case 4
    with p assms(2) have "phase s = Some HELO_OK" by (cases p) (auto simp: phase_flags)
    from smtpd_helo_phase [OF this 4(1)] show ?thesis by auto
  next
    case 5
    with p assms(2) have "phase s = Some GREETED" by (cases p) (auto simp: phase_flags)
    from smtpd_initial_phase [OF this 5(1)] show ?thesis by auto
  qed
qed

lemma smtpd_step_phase:
  assumes "phase s \<noteq> None" "smtpd_step env s reply = Inr (s', sent, stop)"
  shows "phase s' \<noteq> None"
proof -
  obtain c where c: "scan_command (smtp_command s) reply = Inr c"
    using assms(2) by (cases "scan_command (smtp_command s) reply") (simp_all add: smtpd_step_def)
  let ?s = "s\<lparr>smtp_command := c\<rparr>"
  have ph: "phase ?s \<noteq> None" using assms(1) by simp
  consider "s' = ?s" | "received_data s" "smtpd_data env ?s reply = Inr (s', sent, stop)"
    | cmd where "\<not> received_data s" "smtpd_command env ?s cmd reply = Inr (s', sent, stop)"
    using assms(2) c by (auto simp: smtpd_step_def with_command_def Let_def split: if_splits option.splits)
  then show ?thesis
  proof cases
    case 1
    then show ?thesis using ph by simp
  next
    case 2
    from ph obtain p where p: "phase ?s = Some p" by auto
    with 2(1) have "phase ?s = Some DATA_MODE" by (cases p) (auto simp: phase_flags)
    from smtpd_data_phase [OF this 2(2)] show ?thesis by auto
  next
    case 3
    then show ?thesis using smtpd_command_phase [OF ph _ 3(2)] by simp
  qed
qed

lemma reachable_phase: "smtpd_reachable env s \<Longrightarrow> phase s \<noteq> None"
proof (induction rule: smtpd_reachable.induct)
  case start
  show ?case by (simp add: phase_def smtpd_init_def)
next
  case (line s reply s' sent)
  then show ?case using smtpd_step_phase by blast
qed

lemma three_commands:
  assumes "strcasecmp_eq cmd ''MAIL'' \<or> strcasecmp_eq cmd ''RCPT'' \<or> strcasecmp_eq cmd ''DATA''"
  shows "\<not> strcasecmp_eq cmd ''NOOP''" "\<not> strcasecmp_eq cmd ''QUIT''" "\<not> strcasecmp_eq cmd ''EHLO''"
    "\<not> strcasecmp_eq cmd ''RSET''" "\<not> strcasecmp_eq cmd ''VRFY''" "\<not> strcasecmp_eq cmd ''EXPN''"
    "\<not> strcasecmp_eq cmd ''HELP''" "\<not> strcasecmp_eq cmd ''HELO''"
    "strcasecmp_eq cmd ''MAIL'' \<longrightarrow> \<not> strcasecmp_eq cmd ''RCPT'' \<and> \<not> strcasecmp_eq cmd ''DATA''"
    "strcasecmp_eq cmd ''RCPT'' \<longrightarrow> \<not> strcasecmp_eq cmd ''DATA''"
  using assms by (auto simp: strcasecmp_eq_def tolower_def)

lemma bad_sequence:
  assumes "phase s = Some p"
    and "checkCRLF reply (length reply)"
    and "scan_command (smtp_command s) reply = Inr (Some cmd)"
    and "strcasecmp_eq cmd ''MAIL'' \<or> strcasecmp_eq cmd ''RCPT'' \<or> strcasecmp_eq cmd ''DATA''"
    and "spec_mandates_503 p cmd"
  shows "smtpd_step env s reply = Inr (s\<lparr>smtp_command := Some cmd\<rparr>, [send503], False)"
proof -
  note no = three_commands [OF assms(4)]
  have nd: "\<not> received_data s"
    using assms(1,5) by (cases p) (auto simp: phase_flags spec_mandates_503_def)
  have step: "smtpd_step env s reply = smtpd_command env (s\<lparr>smtp_command := Some cmd\<rparr>) cmd reply"
    using assms(2,3) nd by (simp add: smtpd_step_def with_command_def)
  have "smtpd_command env (s\<lparr>smtp_command := Some cmd\<rparr>) cmd reply =
      Inr (s\<lparr>smtp_command := Some cmd\<rparr>, [send503], False)"
  proof (cases p)
    case GREETED
    then show ?thesis
      using assms(1,4) no
      by (simp add: phase_flags smtpd_command_def smtpd_initial_def)
  next
    case HELO_OK
    then show ?thesis
      using assms(1,4,5) no
      by (auto simp: phase_flags spec_mandates_503_def smtpd_command_def smtpd_helo_def)
  next
    case MAIL_OK
    then show ?thesis
      using assms(1,4,5) no
      by (auto simp: phase_flags spec_mandates_503_def smtpd_command_def smtpd_mail_def)
  next
    case RCPT_OK
    then show ?thesis
      using assms(1,4,5) no
      by (auto simp: phase_flags spec_mandates_503_def smtpd_command_def smtpd_rcpt_def)
  next
    case DATA_MODE
    then show ?thesis using assms(5) by (simp add: spec_mandates_503_def)
  qed
  then show ?thesis unfolding step .
qed

text \<open>
  C9. Every state a session reaches is one of the five states of the specification. There,
  a well-formed line whose command is \<open>MAIL\<close>, \<open>RCPT\<close> or \<open>DATA\<close>, when the table of
  section 4.3 mandates \<open>503\<close> for it in that state, is answered with
  \<open>503 Bad sequence of commands\<close> and nothing else, and leaves the state as it was: no
  \<open>250 OK\<close> is sent.
\<close>

theorem no_250_where_503_is_due:
  assumes "smtpd_reachable env s"
    and "checkCRLF reply (length reply)"
    and "scan_command (smtp_command s) reply = Inr (Some cmd)"
    and "strcasecmp_eq cmd ''MAIL'' \<or> strcasecmp_eq cmd ''RCPT'' \<or> strcasecmp_eq cmd ''DATA''"
  shows "\<exists>p. phase s = Some p \<and>
           (spec_mandates_503 p cmd \<longrightarrow>
              smtpd_step env s reply = Inr (s\<lparr>smtp_command := Some cmd\<rparr>, [send503], False) \<and>
              (\<forall>s' sent stop. smtpd_step env s reply = Inr (s', sent, stop) \<longrightarrow>
                 send250 \<notin> set sent))"
proof -
  from reachable_phase [OF assms(1)] obtain p where p: "phase s = Some p" by auto
  have ne: "send250 \<noteq> send503" by (simp add: send250_def send503_def)
  have "smtpd_step env s reply = Inr (s\<lparr>smtp_command := Some cmd\<rparr>, [send503], False) \<and>
        (\<forall>s' sent stop. smtpd_step env s reply = Inr (s', sent, stop) \<longrightarrow> send250 \<notin> set sent)"
    if "spec_mandates_503 p cmd"
    using bad_sequence [OF p assms(2,3,4) that, of env] ne by simp
  with p show ?thesis by blast
qed

theorem no_250_where_503_is_due_witness:
  "smtpd_reachable mx_env smtpd_init \<and>
   checkCRLF (''MAIL FROM:<a@x>'' @ CRLF) (length (''MAIL FROM:<a@x>'' @ CRLF)) \<and>
   scan_command (smtp_command smtpd_init) (''MAIL FROM:<a@x>'' @ CRLF) = Inr (Some ''MAIL'') \<and>
   strcasecmp_eq ''MAIL'' ''MAIL'' \<and>
   phase smtpd_init = Some GREETED \<and> spec_mandates_503 GREETED ''MAIL'' \<and>
   smtpd_step mx_env smtpd_init (''MAIL FROM:<a@x>'' @ CRLF) =
     Inr (smtpd_init\<lparr>smtp_command := Some ''MAIL''\<rparr>, [send503], False)"
proof -
  have h1: "smtpd_reachable mx_env smtpd_init" by (rule smtpd_reachable.start)
  have h2: "phase smtpd_init = Some GREETED" by (simp add: phase_def smtpd_init_def)
  have h3: "checkCRLF (''MAIL FROM:<a@x>'' @ CRLF) (length (''MAIL FROM:<a@x>'' @ CRLF))"
    by (simp add: c_defs)
  have h4: "scan_command (smtp_command smtpd_init) (''MAIL FROM:<a@x>'' @ CRLF) = Inr (Some ''MAIL'')"
    by (simp add: c_defs)
  have h5: "strcasecmp_eq ''MAIL'' ''MAIL''" by (simp add: strcasecmp_eq_def)
  have h6: "spec_mandates_503 GREETED ''MAIL''" by (simp add: spec_mandates_503_def h5)
  have h5': "strcasecmp_eq ''MAIL'' ''MAIL'' \<or> strcasecmp_eq ''MAIL'' ''RCPT'' \<or>
      strcasecmp_eq ''MAIL'' ''DATA''" using h5 by simp
  have s: "smtpd_step mx_env smtpd_init (''MAIL FROM:<a@x>'' @ CRLF) =
     Inr (smtpd_init\<lparr>smtp_command := Some ''MAIL''\<rparr>, [send503], False)"
    using no_250_where_503_is_due [OF h1 h3 h4 h5'] h2 h6 by auto
  show ?thesis by (intro conjI) (fact h1 h2 h3 h4 h5 h6 s)+
qed

section \<open>What the sessions do where the claims hold\<close>

lemma sb_create_inv: "sb_inv (sb_create f n)"
  by (simp add: sb_inv_def sb_create_def)

text \<open>
  The answers of \<open>STAT\<close> and \<open>RSET\<close> are built by \<open>sendCountPositive\<close> from the count and
  the size of the snapshot.
\<close>

lemma strcasecmp_distinct:
  "strcasecmp_eq cmd a \<Longrightarrow> map tolower a \<noteq> map tolower b \<Longrightarrow> \<not> strcasecmp_eq cmd b"
  by (simp add: strcasecmp_eq_def)

lemma stat_reply:
  "strcasecmp_eq cmd ''STAT'' \<Longrightarrow> length reply = 6 \<Longrightarrow>
   popd_transaction us s cmd reply =
     Inr (s, [sendCountPositive (word_of_nat (get_mail_count (mailList s)))
                                (word_of_nat (get_mail_list_size (mailList s)))], False)"
  by (simp add: popd_transaction_def Let_def)

lemma list_reply:
  "strcasecmp_eq cmd ''LIST'' \<Longrightarrow> length reply = 6 \<Longrightarrow>
   popd_transaction us s cmd reply =
     Inr (s, sendCountPositive (word_of_nat (get_mail_count (mailList s)))
                               (word_of_nat (get_mail_list_size (mailList s)))
             # list_items (mailList s) (mailCount s) @ [''.'' @ CRLF], False)"
proof -
  assume c: "strcasecmp_eq cmd ''LIST''" and l: "length reply = 6"
  have "\<not> strcasecmp_eq cmd ''STAT''"
    by (rule strcasecmp_distinct [OF c]) (simp add: tolower_def)
  with c l show ?thesis by (simp add: popd_transaction_def Let_def)
qed

text \<open>
  In the authorization state: an accepted \<open>USER\<close> sets \<open>accepted_user\<close>, a refused one
  stores its name and leaves the flag as it was; every \<open>PASS\<close> that does not log in
  clears the flag and is answered \<open>-ERR\<close>.
\<close>

lemma user_accepted:
  assumes "strcasecmp_eq cmd ''USER''" "length reply \<noteq> 6" "retrieveArgs reply = Some u"
    and "length u \<le> MAX_USERNAME_SIZE us" "is_valid_user us u None"
  shows "popd_authorization us s cmd reply =
     Inr (s\<lparr>username := u, accepted_user := True\<rparr>, [sendPositive], False)"
  using assms by (simp add: popd_authorization_def strcpy_def)

lemma user_refused:
  assumes "strcasecmp_eq cmd ''USER''" "length reply \<noteq> 6" "retrieveArgs reply = Some u"
    and "length u \<le> MAX_USERNAME_SIZE us" "\<not> is_valid_user us u None"
  shows "popd_authorization us s cmd reply = Inr (s\<lparr>username := u\<rparr>, [sendNegative], False)"
  using assms by (simp add: popd_authorization_def strcpy_def)

lemma pass_refused:
  assumes "strcasecmp_eq cmd ''PASS''" "popd_authorization us s cmd reply = Inr (s', sent, stop)"
    and "authorization s'"
  shows "\<not> accepted_user s' \<and> sent = [sendNegative] \<and> \<not> stop"
proof -
  have "\<not> strcasecmp_eq cmd ''USER''"
    by (rule strcasecmp_distinct [OF assms(1)]) (simp add: tolower_def)
  then show ?thesis
    using assms
    by (auto simp: popd_authorization_def Let_def split: if_splits sum.splits)
qed

text \<open>
  The loop of deliveries calls \<open>saveEmail\<close> once for each recipient, and what it leaves in
  \<open>success\<close> is the result of the last call.
\<close>

lemma save_all_success:
  "fst (save_all mk from rcpts dat i success) =
     (if rcpts = [] then success else mk (i + length rcpts - 1))"
proof (induction rcpts arbitrary: i success)
  case Nil
  show ?case by simp
next
  case (Cons to rest)
  show ?case
    using Cons.IH [of "Suc i" "mk i"]
    by (cases "save_all mk from rest dat (Suc i) (mk i)") (auto simp: saveEmail_def)
qed

lemma save_all_saved:
  "snd (save_all mk from rcpts dat i success) =
     map (\<lambda>(k, to). (to, dat))
       (filter (\<lambda>(k, to). mk k \<noteq> - 1) (zip [i ..< i + length rcpts] rcpts))"
proof (induction rcpts arbitrary: i success)
  case Nil
  show ?case by simp
next
  case (Cons to rest)
  have up: "[i ..< i + length (to # rest)] = i # [Suc i ..< Suc i + length rest]"
    by (simp add: upt_rec)
  show ?case
    unfolding up using Cons.IH [of "Suc i" "mk i"]
    by (cases "save_all mk from rest dat (Suc i) (mk i)") (auto simp: saveEmail_def)
qed

text \<open>
  The string \<open>retrieveArgs\<close> returns is not empty and holds neither a zero byte nor a CR;
  on a string with a \<open><\<close> in it, the \<open>sscanf\<close> of the two syntax checks stores a word.
\<close>

lemma cstr_NUL_free: "NUL \<notin> set (cstr b)"
  using set_takeWhileD [of NUL "\<lambda>c. c \<noteq> NUL" b] by (auto simp: cstr_def)

lemma retrieveArgs_token:
  assumes "retrieveArgs reply = Some a"
  shows "a \<noteq> [] \<and> NUL \<notin> set a \<and> CR \<notin> set a"
proof -
  from assms obtain ret where a: "strtok (drop (Suc ret) (cstr reply)) CR = Some a"
    by (auto simp: retrieveArgs_def split: option.splits)
  let ?t = "dropWhile (\<lambda>c. c = CR) (drop (Suc ret) (cstr reply))"
  from a have t: "?t \<noteq> []" and eq: "a = takeWhile (\<lambda>c. c \<noteq> CR) ?t"
    by (auto simp: strtok_def Let_def split: if_splits)
  have "hd ?t \<noteq> CR" using t by (rule hd_dropWhile)
  then have "a \<noteq> []" using t eq by (cases ?t) auto
  moreover have "x \<in> set (cstr reply) \<and> x \<noteq> CR" if "x \<in> set a" for x
  proof -
    from that have "x \<in> set ?t" "x \<noteq> CR" unfolding eq by (auto dest: set_takeWhileD)
    then have "x \<in> set (drop (Suc ret) (cstr reply))" by (auto dest: set_dropWhileD)
    then have "x \<in> set (cstr reply)" by (rule in_set_dropD)
    with \<open>x \<noteq> CR\<close> show ?thesis by simp
  qed
  ultimately show ?thesis using cstr_NUL_free [of reply] by auto
qed

lemma sscanf_s_bracket:
  assumes "CHR ''<'' \<in> set str" "NUL \<notin> set str"
  shows "sscanf_s w str \<noteq> None"
proof -
  have c: "cstr str = str"
    using assms(2) by (auto simp: cstr_def takeWhile_eq_all_conv)
  have "\<not> isspace (CHR ''<'')" by (simp add: isspace_def)
  with assms(1) have ne: "dropWhile isspace str \<noteq> []"
    by (auto simp: dropWhile_eq_Nil_conv)
  then have "\<not> isspace (hd (dropWhile isspace str))" by (rule hd_dropWhile)
  with ne have "takeWhile (\<lambda>c. \<not> isspace c) (dropWhile isspace str) \<noteq> []"
    by (cases "dropWhile isspace str") auto
  then show ?thesis by (simp add: sscanf_s_def c Let_def)
qed

section \<open>Scenarios of the specification, run through the whole servers\<close>

lemma memchr_Cons:
  "memchr (x # xs) c n =
     (if n = 0 then None else if x = c then Some 0 else map_option Suc (memchr xs c (n - 1)))"
  by (cases n) simp_all

lemmas run_defs = memchr_Cons popd_handle_client_def smtpd_handle_client_def client_loop.simps
  sb_read_line.simps sb_create_def sb_emit_def MAX_LINE_LENGTH_def

text \<open>S3: \<open>PASS\<close> without \<open>USER\<close> is refused; the stream then ends.\<close>

lemma scenario_S3:
  "popd_handle_client alice_store [Data (''PASS pw'' @ CRLF)] = Inr [sendWelcome, sendNegative]"
  by (simp add: run_defs popd_step_def popd_authorization_def popd_init_def alice_store_def c_defs)

text \<open>S5: \<open>MAIL\<close> before \<open>HELO\<close> is a bad sequence.\<close>

lemma scenario_S5:
  "smtpd_handle_client mx_env [Data (''MAIL FROM:<a@x>'' @ CRLF)] =
     Inr [smtpd_welcome mx_env, send503]"
  by (simp add: run_defs smtpd_step_def smtpd_command_def smtpd_initial_def smtpd_init_def
      mx_env_def c_defs)

text \<open>
  S6: an unknown recipient is answered \<open>555\<close>. The lines arrive in segments that do not
  end where the lines end.
\<close>

lemma scenario_S6:
  "smtpd_handle_client mx_env
     [Data (''HELO x'' @ CRLF @ ''MAIL FR''), Data (''OM:<a@x>'' @ CRLF @ ''RCPT TO:<nobody>'' @ CRLF),
      Data (''QUIT'' @ CRLF)] =
   Inr [smtpd_welcome mx_env, ''250 mx'' @ CRLF, send250, send555, send221]"
  by (simp add: run_defs smtpd_step_def smtpd_command_def smtpd_initial_def smtpd_helo_def
      smtpd_mail_def checkMailSyntax_def checkRcptSyntax_def retrieveEmail_def smtpd_init_def
      mx_env_def c_defs)

text \<open>S1: the happy path of POP3, for \<open>alice\<close> with one mail of 100 octets.\<close>

lemma scenario_S1:
  "popd_handle_client
     (alice_store\<lparr>load_user_mail :=
        (\<lambda>u. [\<lparr>filename = ''mail1'', item_size = 100, deleted = False\<rparr>])\<rparr>)
     [Data (''USER alice'' @ CRLF), Data (''PASS pw'' @ CRLF), Data (''STAT'' @ CRLF),
      Data (''LIST'' @ CRLF), Data (''DELE 1'' @ CRLF), Data (''STAT'' @ CRLF),
      Data (''RSET'' @ CRLF), Data (''QUIT'' @ CRLF)] =
   Inr [sendWelcome, sendPositive, sendPositive, ''+OK 1 100'' @ CRLF,
        ''+OK 1 100'' @ CRLF, ''1 100'' @ CRLF, ''.'' @ CRLF, sendPositive,
        ''+OK 0 0'' @ CRLF, ''+OK 1 100'' @ CRLF, sendPositive]"
proof -
  have lines: "sendCountPositive 1 100 = ''+OK 1 100'' @ CRLF"
    "sendCountPositive 0 0 = ''+OK 0 0'' @ CRLF"
    "sendCount 1 100 = ''1 100'' @ CRLF"
    using sendCountPositive_small [of 1 100] sendCountPositive_small [of 0 0]
      count_and_size_eq [of 1 100]
    by (simp_all add: printf_d_examples sendCount_def)
  have idx: "arg_index ''1'' = 1" by (simp add: arg_index_def strtol_def)
  show ?thesis
    by (simp add: run_defs popd_step_def popd_authorization_def popd_transaction_def
        popd_init_def alice_store_def c_defs numbers_only_def isdigit_def idx list_items_def
        get_mail_item_def get_mail_item_size_def mark_mail_item_deleted_def
        reset_mail_list_deleted_flag_def get_mail_count_def get_mail_list_size_def lines Let_def)
qed

text \<open>S4: the happy path of SMTP, on a host where \<open>mkstemp\<close> succeeds.\<close>

lemma scenario_S4:
  "smtpd_handle_client (mx_env\<lparr>mkstemp := (\<lambda>i. 5)\<rparr>)
     [Data (''HELO client'' @ CRLF), Data (''MAIL FROM:<a@x>'' @ CRLF),
      Data (''RCPT TO:<bob>'' @ CRLF), Data (''DATA'' @ CRLF),
      Data (''Subject: hi'' @ CRLF @ CRLF @ ''body'' @ CRLF @ ''.'' @ CRLF),
      Data (''QUIT'' @ CRLF)] =
   Inr [smtpd_welcome (mx_env\<lparr>mkstemp := (\<lambda>i. 5)\<rparr>), ''250 mx'' @ CRLF, send250, send250,
        send354, send250, send221]"
proof -
  have recipients: "take (Suc 0) ((replicate 30 [])[0 := ''bob'']) = [''bob'']"
    by (simp add: eval_nat_numeral)
  show ?thesis
    by (simp add: run_defs smtpd_step_def smtpd_command_def smtpd_initial_def smtpd_helo_def
        smtpd_mail_def smtpd_rcpt_def smtpd_data_def add_recipient_def checkMailSyntax_def
        checkRcptSyntax_def retrieveEmail_def saveEmail_def smtpd_init_def smtpd_welcome_def
        mx_env_def c_defs recipients)
qed

text \<open>S2: \<open>USER\<close> without a name, and a line with white space before its CR LF.\<close>

lemma scenario_S2:
  "popd_handle_client alice_store [Data (''USER'' @ CRLF), Data (''USER alice '' @ CRLF)] =
     Inr [sendWelcome, sendNegative, sendNegative]"
  by (simp add: run_defs popd_step_def popd_authorization_def popd_init_def alice_store_def c_defs)

end
